theory Spec2Isabelle
  imports Complex_Main "HOL-Library.Word"
begin


section \<open>The zplsc_c parser (mi/dataset/parser/zplsc_c.py)\<close>

text \<open>
  The parser reads a binary file of profile records.  Every record is the two delimiter
  bytes, a packed big-endian header of 122 bytes and the samples of up to four channels.
  The file is modelled by the list of its bytes that have not been read yet; the Python 2
  strings of the source are byte strings.  A read never fails here: the I/O errors of the
  operating system are outside the model.
\<close>

subsection \<open>The stream handle\<close>

type_synonym byte = "8 word"

type_synonym stream = "byte list"

text \<open>\<^verbatim>\<open>stream_handle.read(n)\<close>: the next n bytes, fewer at the end of the file.\<close>

definition read :: "nat \<Rightarrow> stream \<Rightarrow> byte list \<times> stream" where
  "read n s = (take n s, drop n s)"

definition PROFILE_DATA_DELIMITER :: "byte list" where
  "PROFILE_DATA_DELIMITER = [0xFD, 0x02]"

subsection \<open>Exceptions and the effects of the parse loop\<close>

datatype exn =
    IOError | OSError | StructError | ValueError
  | SampleException | RecoverableSampleException | IndexError | OtherError

text \<open>The messages handed to the exception callback, by the text they start with.\<close>

datatype diagnostic =
    Invalid_record_delimiter
  | Reading_stream_handle
  | Unpacking_the_data
  | Transition_timestamp_invalid
  | Creating_data_particle

subsection \<open>AzfpProfileHeader\<close>

text \<open>
  The header is a ctypes \<^verbatim>\<open>BigEndianStructure\<close> with \<^verbatim>\<open>_pack_ = 1\<close>: a buffer of 122
  bytes whose fields are read at fixed offsets.  \<^verbatim>\<open>readinto\<close> writes into that buffer, so
  the model keeps the buffer and gives every field as an accessor.  The offsets are those
  of the source's comments less the two delimiter bytes.
\<close>

type_synonym AzfpProfileHeader = "byte list"

definition new_AzfpProfileHeader :: AzfpProfileHeader where
  "new_AzfpProfileHeader = replicate 122 0"

definition c_ubyte :: "byte list \<Rightarrow> nat \<Rightarrow> nat" where
  "c_ubyte b off = unat (b ! off)"

definition c_ushort :: "byte list \<Rightarrow> nat \<Rightarrow> nat" where
  "c_ushort b off = 256 * c_ubyte b off + c_ubyte b (off + 1)"

definition c_uint :: "byte list \<Rightarrow> nat \<Rightarrow> nat" where
  "c_uint b off = 65536 * c_ushort b off + c_ushort b (off + 2)"

definition burst_num :: "AzfpProfileHeader \<Rightarrow> nat" where "burst_num ph = c_ushort ph 0"

definition serial_num :: "AzfpProfileHeader \<Rightarrow> nat" where "serial_num ph = c_ushort ph 2"

definition ping_status :: "AzfpProfileHeader \<Rightarrow> nat" where "ping_status ph = c_ushort ph 4"

definition burst_interval :: "AzfpProfileHeader \<Rightarrow> nat" where "burst_interval ph = c_uint ph 6"

definition year :: "AzfpProfileHeader \<Rightarrow> nat" where "year ph = c_ushort ph 10"

definition month :: "AzfpProfileHeader \<Rightarrow> nat" where "month ph = c_ushort ph 12"

definition day :: "AzfpProfileHeader \<Rightarrow> nat" where "day ph = c_ushort ph 14"

definition hour :: "AzfpProfileHeader \<Rightarrow> nat" where "hour ph = c_ushort ph 16"

definition minute :: "AzfpProfileHeader \<Rightarrow> nat" where "minute ph = c_ushort ph 18"

definition second :: "AzfpProfileHeader \<Rightarrow> nat" where "second ph = c_ushort ph 20"

definition hundredths :: "AzfpProfileHeader \<Rightarrow> nat" where "hundredths ph = c_ushort ph 22"

text \<open>
  The per-channel fields are ctypes arrays of four elements.  The accessors below give
  element \<open>chan\<close> for \<open>chan < 4\<close>; indexing such an array at 4 or more raises IndexError,
  which the code that indexes them writes out (see \<open>parse_channel\<close>).
\<close>

definition digitization_rate :: "AzfpProfileHeader \<Rightarrow> nat \<Rightarrow> nat" where
  "digitization_rate ph chan = c_ushort ph (24 + 2 * chan)"

definition lockout_index :: "AzfpProfileHeader \<Rightarrow> nat \<Rightarrow> nat" where
  "lockout_index ph chan = c_ushort ph (32 + 2 * chan)"

definition num_bins :: "AzfpProfileHeader \<Rightarrow> nat \<Rightarrow> nat" where
  "num_bins ph chan = c_ushort ph (40 + 2 * chan)"

definition range_samples :: "AzfpProfileHeader \<Rightarrow> nat \<Rightarrow> nat" where
  "range_samples ph chan = c_ushort ph (48 + 2 * chan)"

definition num_pings_profile :: "AzfpProfileHeader \<Rightarrow> nat" where
  "num_pings_profile ph = c_ushort ph 56"

definition is_averaged_pings :: "AzfpProfileHeader \<Rightarrow> nat" where
  "is_averaged_pings ph = c_ushort ph 58"

definition num_pings_burst :: "AzfpProfileHeader \<Rightarrow> nat" where
  "num_pings_burst ph = c_ushort ph 60"

definition ping_period :: "AzfpProfileHeader \<Rightarrow> nat" where
  "ping_period ph = c_ushort ph 62"

definition first_ping :: "AzfpProfileHeader \<Rightarrow> nat" where
  "first_ping ph = c_ushort ph 64"

definition second_ping :: "AzfpProfileHeader \<Rightarrow> nat" where
  "second_ping ph = c_ushort ph 66"

definition is_averaged_data :: "AzfpProfileHeader \<Rightarrow> nat \<Rightarrow> nat" where
  "is_averaged_data ph chan = c_ubyte ph (68 + chan)"

definition error_num :: "AzfpProfileHeader \<Rightarrow> nat" where
  "error_num ph = c_ushort ph 72"

definition phase :: "AzfpProfileHeader \<Rightarrow> nat" where
  "phase ph = c_ubyte ph 74"

definition is_overrun :: "AzfpProfileHeader \<Rightarrow> nat" where
  "is_overrun ph = c_ubyte ph 75"

definition num_channels :: "AzfpProfileHeader \<Rightarrow> nat" where
  "num_channels ph = c_ubyte ph 76"

definition gain :: "AzfpProfileHeader \<Rightarrow> nat \<Rightarrow> nat" where
  "gain ph chan = c_ubyte ph (77 + chan)"

definition spare :: "AzfpProfileHeader \<Rightarrow> nat" where
  "spare ph = c_ubyte ph 81"

definition pulse_length :: "AzfpProfileHeader \<Rightarrow> nat \<Rightarrow> nat" where
  "pulse_length ph chan = c_ushort ph (82 + 2 * chan)"

definition board_num :: "AzfpProfileHeader \<Rightarrow> nat \<Rightarrow> nat" where
  "board_num ph chan = c_ushort ph (90 + 2 * chan)"

definition frequency :: "AzfpProfileHeader \<Rightarrow> nat \<Rightarrow> nat" where
  "frequency ph chan = c_ushort ph (98 + 2 * chan)"

definition is_sensor_available :: "AzfpProfileHeader \<Rightarrow> nat" where
  "is_sensor_available ph = c_ushort ph 106"

definition tilt_x :: "AzfpProfileHeader \<Rightarrow> nat" where
  "tilt_x ph = c_ushort ph 108"

definition tilt_y :: "AzfpProfileHeader \<Rightarrow> nat" where
  "tilt_y ph = c_ushort ph 110"

definition battery_voltage :: "AzfpProfileHeader \<Rightarrow> nat" where
  "battery_voltage ph = c_ushort ph 112"

definition pressure :: "AzfpProfileHeader \<Rightarrow> nat" where
  "pressure ph = c_ushort ph 114"

definition temperature :: "AzfpProfileHeader \<Rightarrow> nat" where
  "temperature ph = c_ushort ph 116"

definition ad_channel_6 :: "AzfpProfileHeader \<Rightarrow> nat" where
  "ad_channel_6 ph = c_ushort ph 118"

definition ad_channel_7 :: "AzfpProfileHeader \<Rightarrow> nat" where
  "ad_channel_7 ph = c_ushort ph 120"

text \<open>
  \<^verbatim>\<open>stream_handle.readinto(ph)\<close> overwrites the first bytes of the buffer with what is left
  of the file, at most the size of the structure, and returns how many bytes it wrote.
  The bytes of the buffer it does not reach keep their value.
\<close>

definition readinto :: "AzfpProfileHeader \<Rightarrow> stream \<Rightarrow> nat \<times> AzfpProfileHeader \<times> stream" where
  "readinto ph s =
     (let n = min (length ph) (length s)
      in (n, take n s @ drop n ph, drop n s))"

subsection \<open>struct.Struct\<close>

text \<open>
  The three formats the parser builds: \<^verbatim>\<open>'>nH'\<close>, \<^verbatim>\<open>'>nI'\<close> and \<^verbatim>\<open>'>nB'\<close>, that is n
  big-endian unsigned values of 2, 4 and 1 bytes.  \<^verbatim>\<open>unpack\<close> raises \<^verbatim>\<open>struct.error\<close>
  unless the data has exactly the size of the structure.
\<close>

datatype fmt = FmtH | FmtI | FmtB

fun fmt_width :: "fmt \<Rightarrow> nat" where
  "fmt_width FmtH = 2"
| "fmt_width FmtI = 4"
| "fmt_width FmtB = 1"

definition calcsize :: "nat \<Rightarrow> fmt \<Rightarrow> nat" where
  "calcsize n f = n * fmt_width f"

definition be_uint :: "byte list \<Rightarrow> nat" where
  "be_uint bs = foldl (\<lambda>a b. 256 * a + unat b) 0 bs"

definition struct_unpack :: "nat \<Rightarrow> fmt \<Rightarrow> byte list \<Rightarrow> exn + nat list" where
  "struct_unpack n f data =
     (if length data = calcsize n f
      then Inr (map (\<lambda>i. be_uint (take (fmt_width f) (drop (i * fmt_width f) data))) [0..<n])
      else Inl StructError)"

subsection \<open>The channel data of parse_record (lines 220 to 258)\<close>

text \<open>
  A channel's values are the tuple of integers \<^verbatim>\<open>unpack\<close> returned, or for an averaged
  channel the numpy array of floats computed from it.
\<close>

datatype chan_data = Counts "nat list" | Scaled "real list"

definition chan_len :: "chan_data \<Rightarrow> nat" where
  "chan_len c = (case c of Counts xs \<Rightarrow> length xs | Scaled xs \<Rightarrow> length xs)"

text \<open>\<^verbatim>\<open>ZplscCCalibrationCoefficients.DS\<close>.\<close>

definition DS :: "real list" where
  "DS = [2280000038445 / 10 ^ 14, 2280000038445 / 10 ^ 14,
         2250000089407 / 10 ^ 14, 2300000004470 / 10 ^ 14]"

text \<open>Lines 247 to 250.\<close>

definition divisor :: "AzfpProfileHeader \<Rightarrow> nat \<Rightarrow> nat" where
  "divisor ph chan =
     (if is_averaged_pings ph \<noteq> 0 then num_pings_profile ph * range_samples ph chan
      else range_samples ph chan)"

text \<open>
  Line 255.  The two arrays hold integers (numpy's int64, which these values never
  exceed), and under Python 2 the \<^verbatim>\<open>/\<close> of an integer array by an integer is the floor
  division; numpy gives 0, with a warning, where the divisor is 0, as \<open>div\<close> does.
\<close>

definition linear_values :: "nat list \<Rightarrow> nat list \<Rightarrow> nat \<Rightarrow> nat list" where
  "linear_values linear_sum_values linear_overflow_values d =
     map (\<lambda>(s, ov). (s + ov * 0xFFFFFFFF) div d) (zip linear_sum_values linear_overflow_values)"

text \<open>
  Lines 256 and 257, with real numbers for the floats (the rounding of the floating point
  operations is not modelled).  \<^verbatim>\<open>log10\<close> of 0 is minus infinity, the one infinite value
  there can be, and line 257 sets it to 0.
\<close>

definition log_scale :: "nat \<Rightarrow> nat \<Rightarrow> real" where
  "log_scale chan v =
     (if v = 0 then 0 else (log 10 (real v) - 2.5) * (8 * 0xFFFF) * (DS ! chan))"

text \<open>
  One round of the loop over the channels.  \<^verbatim>\<open>self.ph.num_bins[chan]\<close> is the first
  thing it evaluates, and a ctypes array of four elements raises IndexError at index 4.
  The list \<^verbatim>\<open>overflow_values\<close> of the source is read only in the round that writes it,
  so the model keeps the round's value and not the list.
\<close>

definition parse_channel ::
    "AzfpProfileHeader \<Rightarrow> nat \<Rightarrow> chan_data list \<Rightarrow> stream \<Rightarrow> (exn + chan_data list) \<times> stream" where
  "parse_channel ph chan chan_values s =
     (if 4 \<le> chan then (Inl IndexError, s)
      else
        (case read (calcsize (num_bins ph chan)
                      (if is_averaged_data ph chan \<noteq> 0 then FmtI else FmtH)) s of
           (data, s1) \<Rightarrow>
             (case struct_unpack (num_bins ph chan)
                     (if is_averaged_data ph chan \<noteq> 0 then FmtI else FmtH) data of
                Inl e \<Rightarrow> (Inl e, s1)
              | Inr vals \<Rightarrow>
                  (if is_averaged_data ph chan = 0
                   then (Inr (chan_values[chan := Counts vals]), s1)
                   else
                     (case read (num_bins ph chan) s1 of
                        (overflow_data, s2) \<Rightarrow>
                          (case struct_unpack (num_bins ph chan) FmtB overflow_data of
                             Inl e \<Rightarrow> (Inl e, s2)
                           | Inr overflow_values \<Rightarrow>
                               (Inr (chan_values[chan :=
                                       Scaled (map (log_scale chan)
                                         (linear_values vals overflow_values (divisor ph chan)))]),
                                s2)))))))"

fun parse_channels ::
    "AzfpProfileHeader \<Rightarrow> nat list \<Rightarrow> chan_data list \<Rightarrow> stream \<Rightarrow> (exn + chan_data list) \<times> stream" where
  "parse_channels ph [] chan_values s = (Inr chan_values, s)"
| "parse_channels ph (chan # chans) chan_values s =
     (case parse_channel ph chan chan_values s of
        (Inl e, s') \<Rightarrow> (Inl e, s')
      | (Inr chan_values', s') \<Rightarrow> parse_channels ph chans chan_values' s')"

subsection \<open>datetime\<close>

text \<open>
  Python's \<^verbatim>\<open>datetime\<close>, as far as the parser uses it: the constructor checks its
  arguments and raises ValueError, the difference of two datetimes is a timedelta, here
  its number of microseconds, and \<^verbatim>\<open>total_seconds\<close> divides that by a million.  The day
  number is computed as CPython does (\<^verbatim>\<open>_ymd2ord\<close>).
\<close>

record datetime =
  dt_year :: nat
  dt_month :: nat
  dt_day :: nat
  dt_hour :: nat
  dt_minute :: nat
  dt_second :: nat
  dt_microsecond :: nat

definition is_leap :: "nat \<Rightarrow> bool" where
  "is_leap y = (y mod 4 = 0 \<and> (y mod 100 \<noteq> 0 \<or> y mod 400 = 0))"

definition DAYS_IN_MONTH :: "nat list" where
  "DAYS_IN_MONTH = [31, 28, 31, 30, 31, 30, 31, 31, 30, 31, 30, 31]"

definition DAYS_BEFORE_MONTH :: "nat list" where
  "DAYS_BEFORE_MONTH = [0, 31, 59, 90, 120, 151, 181, 212, 243, 273, 304, 334]"

definition days_in_month :: "nat \<Rightarrow> nat \<Rightarrow> nat" where
  "days_in_month y m = (if m = 2 \<and> is_leap y then 29 else DAYS_IN_MONTH ! (m - 1))"

definition days_before_year :: "nat \<Rightarrow> int" where
  "days_before_year y =
     (let y1 = int y - 1 in y1 * 365 + y1 div 4 - y1 div 100 + y1 div 400)"

definition days_before_month :: "nat \<Rightarrow> nat \<Rightarrow> int" where
  "days_before_month y m =
     int (DAYS_BEFORE_MONTH ! (m - 1)) + (if 2 < m \<and> is_leap y then 1 else 0)"

definition ymd2ord :: "nat \<Rightarrow> nat \<Rightarrow> nat \<Rightarrow> int" where
  "ymd2ord y m d = days_before_year y + days_before_month y m + int d"

definition datetime_new ::
    "nat \<Rightarrow> nat \<Rightarrow> nat \<Rightarrow> nat \<Rightarrow> nat \<Rightarrow> nat \<Rightarrow> nat \<Rightarrow> exn + datetime" where
  "datetime_new y m d hh mm ss us =
     (if 1 \<le> y \<and> y \<le> 9999 \<and> 1 \<le> m \<and> m \<le> 12 \<and> 1 \<le> d \<and> d \<le> days_in_month y m
         \<and> hh < 24 \<and> mm < 60 \<and> ss < 60 \<and> us < 1000000
      then Inr \<lparr>dt_year = y, dt_month = m, dt_day = d, dt_hour = hh, dt_minute = mm,
                dt_second = ss, dt_microsecond = us\<rparr>
      else Inl ValueError)"

definition toordinal :: "datetime \<Rightarrow> int" where
  "toordinal t = ymd2ord (dt_year t) (dt_month t) (dt_day t)"

definition datetime_sub :: "datetime \<Rightarrow> datetime \<Rightarrow> int" where
  "datetime_sub a b =
     ((toordinal a - toordinal b) * 86400
        + (int (dt_second a + dt_minute a * 60 + dt_hour a * 3600)
           - int (dt_second b + dt_minute b * 60 + dt_hour b * 3600))) * 1000000
     + (int (dt_microsecond a) - int (dt_microsecond b))"

definition total_seconds :: "int \<Rightarrow> real" where
  "total_seconds microseconds = real_of_int microseconds / 1000000"

definition datetime_1900_1_1 :: datetime where
  "datetime_1900_1_1 = \<lparr>dt_year = 1900, dt_month = 1, dt_day = 1, dt_hour = 0,
     dt_minute = 0, dt_second = 0, dt_microsecond = 0\<rparr>"

text \<open>Lines 261 to 263.\<close>

definition transmission_timestamp :: "AzfpProfileHeader \<Rightarrow> exn + real" where
  "transmission_timestamp ph =
     (case datetime_new (year ph) (month ph) (day ph) (hour ph) (minute ph) (second ph)
             (hundredths ph * 10000) of
        Inl e \<Rightarrow> Inl e
      | Inr t \<Rightarrow> Inr (total_seconds (datetime_sub t datetime_1900_1_1)))"

subsection \<open>The particle\<close>

datatype ZplscCParticleKey =
    TRANS_TIMESTAMP | SERIAL_NUMBER | PHASE | BURST_NUMBER | TILT_X | TILT_Y
  | BATTERY_VOLTAGE | TEMPERATURE | PRESSURE | IS_AVERAGED_DATA
  | FREQ_CHAN_1 | VALS_CHAN_1 | DEPTH_CHAN_1
  | FREQ_CHAN_2 | VALS_CHAN_2 | DEPTH_CHAN_2
  | FREQ_CHAN_3 | VALS_CHAN_3 | DEPTH_CHAN_3
  | FREQ_CHAN_4 | VALS_CHAN_4 | DEPTH_CHAN_4

datatype pvalue =
    PFloat real | PStr string | PInt nat | PIntList "nat list" | PFloatList "real list"

type_synonym particle_data = "ZplscCParticleKey \<rightharpoonup> pvalue"

text \<open>\<^verbatim>\<open>str\<close> of a non-negative integer: its decimal digits.\<close>

fun str_nat :: "nat \<Rightarrow> string" where
  "str_nat n =
     (if n < 10 then [''0123456789'' ! n]
      else str_nat (n div 10) @ [''0123456789'' ! (n mod 10)])"

declare str_nat.simps [simp del]

text \<open>
  The dictionary of lines 270 to 293.  \<open>chan_values\<close> and \<open>depth_range\<close> come from the
  echogram helper and are indexed at 0 to 3: a shorter list raises IndexError.
\<close>

definition zplsc_particle_data ::
    "AzfpProfileHeader \<Rightarrow> real \<Rightarrow> real list list \<Rightarrow> real list list \<Rightarrow> exn + particle_data" where
  "zplsc_particle_data ph timestamp chan_values depth_range =
     (if length chan_values < 4 \<or> length depth_range < 4 then Inl IndexError
      else Inr (map_of
        [(TRANS_TIMESTAMP, PFloat timestamp),
         (SERIAL_NUMBER, PStr (str_nat (serial_num ph))),
         (PHASE, PInt (phase ph)),
         (BURST_NUMBER, PInt (burst_num ph)),
         (TILT_X, PInt (tilt_x ph)),
         (TILT_Y, PInt (tilt_y ph)),
         (BATTERY_VOLTAGE, PInt (battery_voltage ph)),
         (PRESSURE, PInt (pressure ph)),
         (TEMPERATURE, PInt (temperature ph)),
         (IS_AVERAGED_DATA, PIntList (map (is_averaged_data ph) [0..<4])),
         (FREQ_CHAN_1, PFloat (real (frequency ph 0))),
         (VALS_CHAN_1, PFloatList (chan_values ! 0)),
         (DEPTH_CHAN_1, PFloatList (depth_range ! 0)),
         (FREQ_CHAN_2, PFloat (real (frequency ph 1))),
         (VALS_CHAN_2, PFloatList (chan_values ! 1)),
         (DEPTH_CHAN_2, PFloatList (depth_range ! 1)),
         (FREQ_CHAN_3, PFloat (real (frequency ph 2))),
         (VALS_CHAN_3, PFloatList (chan_values ! 2)),
         (DEPTH_CHAN_3, PFloatList (depth_range ! 2)),
         (FREQ_CHAN_4, PFloat (real (frequency ph 3))),
         (VALS_CHAN_4, PFloatList (chan_values ! 3)),
         (DEPTH_CHAN_4, PFloatList (depth_range ! 3))]))"

text \<open>
  A data particle, by what the parser gives its constructor: the dictionary, and the
  timestamp as both port and internal timestamp.
\<close>

record particle =
  raw_data :: particle_data
  port_timestamp :: real
  internal_timestamp :: real

subsection \<open>The collaborators\<close>

text \<open>
  \<^verbatim>\<open>ZPLSCCEchogram\<close> (mi/dataset/driver/zplsc_c/zplsc_c_echogram.py) and the base class
  \<^verbatim>\<open>SimpleParser\<close> with its \<^verbatim>\<open>_extract_sample\<close> (mi/dataset/dataset_parser.py) are not
  among the source files.  The parser is modelled for any behaviour of theirs: they are
  parameters, each free to raise any exception.  \<open>extract_sample\<close> stands for the call of
  \<^verbatim>\<open>_extract_sample\<close> at line 306, which returns the particle or None, and for what the
  particle does when line 309 has it generate its dictionary.
\<close>

record collaborators =
  compute_echogram_metadata ::
    "AzfpProfileHeader \<Rightarrow> exn + real \<times> real list list \<times> real list"
  compute_backscatter ::
    "AzfpProfileHeader \<Rightarrow> chan_data list \<Rightarrow> real \<Rightarrow> real list list \<Rightarrow> real list
       \<Rightarrow> exn + real list list"
  extract_sample :: "particle_data \<Rightarrow> real \<Rightarrow> exn + particle option"

subsection \<open>parse_record\<close>

text \<open>Lines 260 to 295: what follows the loop over the channels.\<close>

definition assemble ::
    "collaborators \<Rightarrow> AzfpProfileHeader \<Rightarrow> chan_data list
       \<Rightarrow> exn + particle_data \<times> real \<times> real list list \<times> real list list" where
  "assemble env ph chan_values =
     (case transmission_timestamp ph of
        Inl e \<Rightarrow> Inl e
      | Inr timestamp \<Rightarrow>
          (case compute_echogram_metadata env ph of
             Inl e \<Rightarrow> Inl e
           | Inr (sound_speed, depth_range, sea_absorb) \<Rightarrow>
               (case compute_backscatter env ph chan_values sound_speed depth_range sea_absorb of
                  Inl e \<Rightarrow> Inl e
                | Inr chan_values' \<Rightarrow>
                    (case zplsc_particle_data ph timestamp chan_values' depth_range of
                       Inl e \<Rightarrow> Inl e
                     | Inr d \<Rightarrow> Inr (d, timestamp, chan_values', depth_range)))))"

definition parse_record ::
    "collaborators \<Rightarrow> AzfpProfileHeader \<Rightarrow> stream
       \<Rightarrow> (exn + particle_data \<times> real \<times> real list list \<times> real list list) \<times> stream" where
  "parse_record env ph s =
     (case parse_channels ph [0..<num_channels ph]
             [Counts [], Counts [], Counts [], Counts []] s of
        (Inl e, s') \<Rightarrow> (Inl e, s')
      | (Inr chan_values, s') \<Rightarrow> (assemble env ph chan_values, s'))"

subsection \<open>find_next_record\<close>

text \<open>
  The while loop of \<^verbatim>\<open>find_next_record\<close>: \<open>delimiter\<close> is the rolling window, \<open>s\<close> the
  stream, \<open>good_delimiter\<close> the flag.  \<^verbatim>\<open>delimiter[1:2]\<close> drops the oldest byte.
\<close>

function scan_delimiter :: "byte list \<Rightarrow> stream \<Rightarrow> bool \<Rightarrow> bool \<times> stream" where
  "scan_delimiter delimiter s good_delimiter =
     (if delimiter = PROFILE_DATA_DELIMITER \<or> delimiter = [] then (good_delimiter, s)
      else scan_delimiter (take 1 (drop 1 delimiter) @ fst (read 1 s)) (snd (read 1 s)) False)"
  by pat_completeness auto
termination
proof (relation "measure (\<lambda>(delimiter, s, g). length delimiter + length s)")
  fix delimiter :: "byte list" and s :: stream and good_delimiter :: bool
  assume "\<not> (delimiter = PROFILE_DATA_DELIMITER \<or> delimiter = [])"
  then have "0 < length delimiter" by simp
  then show "((take 1 (drop 1 delimiter) @ fst (read 1 s), snd (read 1 s), False),
              (delimiter, s, good_delimiter))
             \<in> measure (\<lambda>(delimiter, s, g). length delimiter + length s)"
    by (cases s) (auto simp: read_def min_def)
qed simp

declare scan_delimiter.simps [simp del]

text \<open>
  What the parser does to the outside is a sequence of events, in order: a particle
  appended to the record buffer, or a call of the exception callback.
\<close>

datatype event = Particle particle | Callback diagnostic

definition find_next_record :: "stream \<Rightarrow> event list \<times> stream" where
  "find_next_record s =
     (case read 2 s of (delimiter, s1) \<Rightarrow>
        (case scan_delimiter delimiter s1 True of (good_delimiter, s2) \<Rightarrow>
           (if \<not> good_delimiter then [Callback Invalid_record_delimiter] else [], s2)))"

subsection \<open>parse_file\<close>

text \<open>
  How a round of the while loop ends: it goes on to the next round, it returns from
  \<^verbatim>\<open>parse_file\<close>, or an exception no clause catches leaves \<^verbatim>\<open>parse_file\<close>.
\<close>

datatype flow = Continue | Return | Raise exn

text \<open>The except clauses of lines 312 to 320.\<close>

definition except :: "exn \<Rightarrow> event list \<times> flow" where
  "except e =
     (case e of
        IOError \<Rightarrow> ([Callback Reading_stream_handle], Return)
      | OSError \<Rightarrow> ([Callback Reading_stream_handle], Return)
      | StructError \<Rightarrow> ([Callback Unpacking_the_data], Continue)
      | ValueError \<Rightarrow> ([Callback Transition_timestamp_invalid], Continue)
      | SampleException \<Rightarrow> ([Callback Creating_data_particle], Continue)
      | RecoverableSampleException \<Rightarrow> ([Callback Creating_data_particle], Continue)
      | IndexError \<Rightarrow> ([], Raise IndexError)
      | OtherError \<Rightarrow> ([], Raise OtherError))"

text \<open>The try statement of lines 301 to 320.\<close>

definition try_record ::
    "collaborators \<Rightarrow> AzfpProfileHeader \<Rightarrow> stream \<Rightarrow> (event list \<times> flow) \<times> stream" where
  "try_record env ph s =
     (case parse_record env ph s of
        (Inl e, s') \<Rightarrow> (except e, s')
      | (Inr (data, timestamp, _, _), s') \<Rightarrow>
          (case extract_sample env data timestamp of
             Inl e \<Rightarrow> (except e, s')
           | Inr None \<Rightarrow> (([], Continue), s')
           | Inr (Some p) \<Rightarrow> (([Particle p], Continue), s')))"

text \<open>
  The body of the while loop, lines 301 to 324: the try statement, then a new header and
  \<^verbatim>\<open>find_next_record\<close>.  It gives the events, how the round ends, and \<^verbatim>\<open>self.ph\<close> and
  the stream after it.
\<close>

definition loop_body ::
    "collaborators \<Rightarrow> AzfpProfileHeader \<Rightarrow> stream
       \<Rightarrow> event list \<times> flow \<times> AzfpProfileHeader \<times> stream" where
  "loop_body env ph s =
     (case try_record env ph s of
        ((evs, Continue), s1) \<Rightarrow>
          (case find_next_record s1 of
             (evs', s2) \<Rightarrow> (evs @ evs', Continue, new_AzfpProfileHeader, s2))
      | ((evs, fl), s1) \<Rightarrow> (evs, fl, ph, s1))"

text \<open>
  The while loop of lines 300 to 324, from the test of its condition: \<open>ph\<close> is
  \<^verbatim>\<open>self.ph\<close>.  The result is the events and the exception that left \<^verbatim>\<open>parse_file\<close>,
  if one did.
\<close>

function parse_loop ::
    "collaborators \<Rightarrow> AzfpProfileHeader \<Rightarrow> stream \<Rightarrow> event list \<times> exn option" where
  "parse_loop env ph s =
     (case readinto ph s of
        (n, ph1, s1) \<Rightarrow>
          (if n = 0 then ([], None)
           else
             (case loop_body env ph1 s1 of
                (evs, Continue, ph2, s2) \<Rightarrow>
                  (case parse_loop env ph2 s2 of (evs', r) \<Rightarrow> (evs @ evs', r))
              | (evs, Return, _, _) \<Rightarrow> (evs, None)
              | (evs, Raise e, _, _) \<Rightarrow> (evs, Some e))))"
  by pat_completeness auto
termination
proof (relation "measure (\<lambda>(env, ph, s). length s)")
  fix env :: collaborators and ph :: AzfpProfileHeader and s :: stream
    and n :: nat and y :: "AzfpProfileHeader \<times> stream" and ph1 s1
    and evs :: "event list" and w :: "flow \<times> AzfpProfileHeader \<times> stream" and fl
    and v :: "AzfpProfileHeader \<times> stream" and ph2 s2
  assume "(n, y) = readinto ph s" "(ph1, s1) = y" "n \<noteq> 0"
    "(evs, w) = loop_body env ph1 s1" "(fl, v) = w" "fl = Continue" "(ph2, s2) = v"
  then have r: "readinto ph s = (n, ph1, s1)" and b: "loop_body env ph1 s1 = (evs, fl, ph2, s2)"
    by simp_all
  \<comment> \<open>No step of the parser moves the stream backwards.\<close>
  have scan_le: "length (snd (scan_delimiter d t g)) \<le> length t" for d t g
  proof (induction d t g rule: scan_delimiter.induct)
    case (1 delimiter t good_delimiter)
    show ?case
    proof (cases "delimiter = PROFILE_DATA_DELIMITER \<or> delimiter = []")
      case True
      then show ?thesis by (subst scan_delimiter.simps) simp
    next
      case False
      have "length (snd (scan_delimiter (take 1 (drop 1 delimiter) @ fst (read 1 t))
                           (snd (read 1 t)) False))
              \<le> length (snd (read 1 t))"
        using "1.IH" False by simp
      also have "\<dots> \<le> length t" by (simp add: read_def)
      finally show ?thesis using False by (subst scan_delimiter.simps) simp
    qed
  qed
  have find_le: "length (snd (find_next_record t)) \<le> length t" for t
  proof -
    have "length (snd (scan_delimiter (take 2 t) (drop 2 t) True)) \<le> length (drop 2 t)"
      by (rule scan_le)
    then show ?thesis
      by (auto simp: find_next_record_def read_def split: prod.splits)
  qed
  have chan_le: "length (snd (parse_channel h c cv t)) \<le> length t" for h c cv t
    by (auto simp: parse_channel_def read_def split: prod.splits sum.splits)
  have chans_le: "length (snd (parse_channels h cs cv t)) \<le> length t" for h cs cv t
  proof (induction cs arbitrary: cv t)
    case Nil
    show ?case by simp
  next
    case (Cons c cs)
    show ?case
    proof (cases "parse_channel h c cv t")
      case (Pair res t')
      have le: "length t' \<le> length t" using chan_le [of h c cv t] Pair by simp
      show ?thesis
      proof (cases res)
        case (Inl e)
        with Pair le show ?thesis by simp
      next
        case (Inr cv')
        have "length (snd (parse_channels h cs cv' t')) \<le> length t'" by (rule Cons.IH)
        with Pair Inr le show ?thesis by simp
      qed
    qed
  qed
  have record_le: "length (snd (parse_record e h t)) \<le> length t" for e h t
    using chans_le [of h "[0..<num_channels h]" "[Counts [], Counts [], Counts [], Counts []]" t]
    by (auto simp: parse_record_def split: prod.splits sum.splits)
  have try_le: "length (snd (try_record e h t)) \<le> length t" for e h t
    using record_le [of e h t]
    by (auto simp: try_record_def split: prod.splits sum.splits option.splits)
  have body_le: "length (snd (snd (snd (loop_body e h t)))) \<le> length t" for e h t
  proof -
    obtain es fl' t1 where t: "try_record e h t = ((es, fl'), t1)"
      by (metis surj_pair)
    have le: "length t1 \<le> length t" using try_le [of e h t] t by simp
    show ?thesis
    proof (cases fl')
      case Continue
      have "length (snd (find_next_record t1)) \<le> length t1" by (rule find_le)
      with t Continue le show ?thesis by (auto simp: loop_body_def split: prod.splits)
    next
      case Return
      with t le show ?thesis by (simp add: loop_body_def)
    next
      case (Raise e')
      with t le show ?thesis by (simp add: loop_body_def)
    qed
  qed
  \<comment> \<open>Every round reads at least one byte of the header.\<close>
  from r \<open>n \<noteq> 0\<close> have "length s1 < length s"
    by (auto simp: readinto_def Let_def)
  moreover have "length s2 \<le> length s1"
    using body_le [of env ph1 s1] b by simp
  ultimately show "((env, ph2, s2), (env, ph, s)) \<in> measure (\<lambda>(env, ph, s). length s)"
    by simp
qed simp

declare parse_loop.simps [simp del]

text \<open>Lines 297 to 324.\<close>

definition parse_file :: "collaborators \<Rightarrow> stream \<Rightarrow> event list \<times> exn option" where
  "parse_file env s =
     (case find_next_record s of
        (evs, s1) \<Rightarrow>
          (case parse_loop env new_AzfpProfileHeader s1 of (evs', r) \<Rightarrow> (evs @ evs', r)))"

section \<open>Notions for the statements\<close>

text \<open>The bytes a channel takes in the file, by the header.\<close>

definition chan_size :: "AzfpProfileHeader \<Rightarrow> nat \<Rightarrow> nat" where
  "chan_size ph chan =
     (if is_averaged_data ph chan \<noteq> 0 then 5 * num_bins ph chan else 2 * num_bins ph chan)"

text \<open>
  A header that declares, for channel 0, averaged data in 2 bins, 1 range sample per bin,
  1 ping per profile, and pings that are not averaged in time.
\<close>

definition averaged_example_header :: AzfpProfileHeader where
  "averaged_example_header = new_AzfpProfileHeader[41 := 2, 49 := 1, 57 := 1, 68 := 1]"

text \<open>
  A header that declares, for channel 0, averaged data in 1 bin, 1 range sample per bin and
  pings that are not averaged in time.
\<close>

definition overflow_example_header :: AzfpProfileHeader where
  "overflow_example_header = new_AzfpProfileHeader[41 := 1, 49 := 1, 57 := 1, 68 := 1]"

text \<open>
  The number of seconds from 1900-01-01T00:00:00 to an instant, by counting: the days of
  the whole years between 1900 and the instant's year, the days of the whole months of its
  year before its month, the days of its month before its day, and the time of day.
\<close>

definition days_in_year :: "nat \<Rightarrow> nat" where
  "days_in_year y = (if is_leap y then 366 else 365)"

definition days_since_1900 :: "nat \<Rightarrow> nat \<Rightarrow> nat \<Rightarrow> int" where
  "days_since_1900 y m d =
     (if 1900 \<le> y then int (sum_list (map days_in_year [1900..<y]))
      else - int (sum_list (map days_in_year [y..<1900])))
     + int (sum_list (map (days_in_month y) [1..<m]))
     + (int d - 1)"

definition seconds_since_1900 :: "AzfpProfileHeader \<Rightarrow> real" where
  "seconds_since_1900 ph =
     real_of_int (days_since_1900 (year ph) (month ph) (day ph)) * 86400
     + real (hour ph) * 3600 + real (minute ph) * 60 + real (second ph)
     + real (hundredths ph) / 100"

definition valid_calendar :: "AzfpProfileHeader \<Rightarrow> bool" where
  "valid_calendar ph =
     (1 \<le> year ph \<and> year ph \<le> 9999 \<and> 1 \<le> month ph \<and> month ph \<le> 12
      \<and> 1 \<le> day ph \<and> day ph \<le> days_in_month (year ph) (month ph)
      \<and> hour ph < 24 \<and> minute ph < 60 \<and> second ph < 60 \<and> hundredths ph < 100)"

text \<open>A header dated 2014-08-17 12:55:00.00 that declares no channel.\<close>

definition timestamp_example_header :: AzfpProfileHeader where
  "timestamp_example_header =
     new_AzfpProfileHeader[10 := 0x07, 11 := 0xDE, 13 := 8, 15 := 17, 17 := 12, 19 := 55]"

text \<open>The bytes the channels of a record take in the file, by its header.\<close>

definition body_size :: "AzfpProfileHeader \<Rightarrow> nat" where
  "body_size ph = sum_list (map (chan_size ph) [0..<num_channels ph])"

text \<open>
  What the theorems below assume of the collaborators where they need them to return: the
  echogram helper gives depth ranges for four channels and backscatter values of the shape
  of the channel values it was given, and \<^verbatim>\<open>_extract_sample\<close> gives the particle of the
  data.
\<close>

definition collaborators_succeed :: "collaborators \<Rightarrow> bool" where
  "collaborators_succeed env =
     ((\<forall>ph. \<exists>sound_speed depth_range sea_absorb.
          compute_echogram_metadata env ph = Inr (sound_speed, depth_range, sea_absorb)
          \<and> 4 \<le> length depth_range)
      \<and> (\<forall>ph cv sound_speed depth_range sea_absorb. \<exists>cv'.
          compute_backscatter env ph cv sound_speed depth_range sea_absorb = Inr cv'
          \<and> map length cv' = map chan_len cv)
      \<and> (\<forall>d timestamp. extract_sample env d timestamp
            = Inr (Some \<lparr>raw_data = d, port_timestamp = timestamp,
                          internal_timestamp = timestamp\<rparr>)))"

text \<open>Collaborators of that kind, for the examples: the values pass unchanged.\<close>

definition values_of :: "chan_data \<Rightarrow> real list" where
  "values_of c = (case c of Counts xs \<Rightarrow> map real xs | Scaled xs \<Rightarrow> xs)"

definition plain_collaborators :: collaborators where
  "plain_collaborators =
     \<lparr>compute_echogram_metadata = (\<lambda>ph. Inr (1500, [[], [], [], []], [0, 0, 0, 0])),
      compute_backscatter = (\<lambda>ph cv sound_speed depth_range sea_absorb. Inr (map values_of cv)),
      extract_sample = (\<lambda>d timestamp.
         Inr (Some \<lparr>raw_data = d, port_timestamp = timestamp,
                     internal_timestamp = timestamp\<rparr>))\<rparr>"

text \<open>The scalar fields of a particle that come from the header.\<close>

definition header_scalars :: "AzfpProfileHeader \<Rightarrow> particle_data \<Rightarrow> bool" where
  "header_scalars ph d =
     (d SERIAL_NUMBER = Some (PStr (str_nat (serial_num ph)))
      \<and> d PHASE = Some (PInt (phase ph))
      \<and> d BURST_NUMBER = Some (PInt (burst_num ph))
      \<and> d TILT_X = Some (PInt (tilt_x ph))
      \<and> d TILT_Y = Some (PInt (tilt_y ph))
      \<and> d BATTERY_VOLTAGE = Some (PInt (battery_voltage ph))
      \<and> d PRESSURE = Some (PInt (pressure ph))
      \<and> d TEMPERATURE = Some (PInt (temperature ph)))"

text \<open>Whether the two delimiter bytes stand somewhere in a byte string, one after the other.\<close>

fun has_delimiter :: "byte list \<Rightarrow> bool" where
  "has_delimiter (a # b # bs) = ([a, b] = PROFILE_DATA_DELIMITER \<or> has_delimiter (b # bs))"
| "has_delimiter _ = False"

text \<open>
  A record in the file: the delimiter, the header and the body.  It is well formed when
  the header has its 122 bytes and declares at most four channels, and the body has the
  length the header's \<open>num_bins\<close> and \<open>is_averaged_data\<close> give it.
\<close>

definition frame :: "AzfpProfileHeader \<Rightarrow> byte list \<Rightarrow> stream" where
  "frame ph body = PROFILE_DATA_DELIMITER @ ph @ body"

definition well_formed :: "AzfpProfileHeader \<Rightarrow> byte list \<Rightarrow> bool" where
  "well_formed ph body =
     (length ph = 122 \<and> num_channels ph \<le> 4 \<and> length body = body_size ph)"

definition records :: "(AzfpProfileHeader \<times> byte list) list \<Rightarrow> stream" where
  "records rs = concat (map (\<lambda>(ph, body). frame ph body) rs)"

text \<open>The particles of the record buffer and the calls of the exception callback.\<close>

definition particles :: "event list \<Rightarrow> particle list" where
  "particles evs = List.map_filter (\<lambda>e. case e of Particle p \<Rightarrow> Some p | Callback _ \<Rightarrow> None) evs"

definition callbacks :: "event list \<Rightarrow> diagnostic list" where
  "callbacks evs = List.map_filter (\<lambda>e. case e of Particle _ \<Rightarrow> None | Callback d \<Rightarrow> Some d) evs"


text \<open>The first 20 bytes of a header dated 2014-08-17 12:55.\<close>

definition truncated_header_bytes :: "byte list" where
  "truncated_header_bytes =
     [0, 0, 0, 0, 0, 0, 0, 0, 0, 0, 0x07, 0xDE, 0, 8, 0, 17, 0, 12, 0, 55]"

text \<open>
  A header dated 2014-08-17 12:55 that declares one channel of 100 raw bins, 200 bytes of
  body.
\<close>

definition hundred_bins_header :: AzfpProfileHeader where
  "hundred_bins_header = timestamp_example_header[41 := 100, 76 := 1]"

text \<open>A header that declares five channels, none with a bin.\<close>

definition five_channels_header :: AzfpProfileHeader where
  "five_channels_header = timestamp_example_header[76 := 5]"

text \<open>
  The assumption of C9 on the echogram helper: the backscatter values it returns have, for
  every channel, the length of the channel's values it was given.
\<close>

definition backscatter_keeps_shape :: "collaborators \<Rightarrow> bool" where
  "backscatter_keeps_shape env =
     (\<forall>ph cv sound_speed depth_range sea_absorb cv'.
         compute_backscatter env ph cv sound_speed depth_range sea_absorb = Inr cv'
         \<longrightarrow> map length cv' = map chan_len cv)"

text \<open>The twelve per-channel fields of the particle, and the values field of a channel.\<close>

definition channel_keys :: "ZplscCParticleKey set" where
  "channel_keys =
     {FREQ_CHAN_1, VALS_CHAN_1, DEPTH_CHAN_1, FREQ_CHAN_2, VALS_CHAN_2, DEPTH_CHAN_2,
      FREQ_CHAN_3, VALS_CHAN_3, DEPTH_CHAN_3, FREQ_CHAN_4, VALS_CHAN_4, DEPTH_CHAN_4}"

definition VALS_CHAN :: "nat \<Rightarrow> ZplscCParticleKey" where
  "VALS_CHAN chan = [VALS_CHAN_1, VALS_CHAN_2, VALS_CHAN_3, VALS_CHAN_4] ! chan"

text \<open>A header dated 2014-08-17 12:55 that declares one channel of one raw bin.\<close>

definition one_bin_header :: AzfpProfileHeader where
  "one_bin_header = timestamp_example_header[41 := 1, 76 := 1]"

text \<open>
  \<open>loop_test env input evs ph s\<close>: in the run of \<^verbatim>\<open>parse_file\<close> on \<open>input\<close>, the condition
  of the while loop (line 300) is evaluated with \<^verbatim>\<open>self.ph\<close> being \<open>ph\<close> and the stream at
  \<open>s\<close>, after the events \<open>evs\<close>.  The first rule is lines 298 and 299, the second a round
  of the loop that goes on.
\<close>

inductive loop_test ::
    "collaborators \<Rightarrow> stream \<Rightarrow> event list \<Rightarrow> AzfpProfileHeader \<Rightarrow> stream \<Rightarrow> bool"
    for env :: collaborators and input :: stream where
  enter: "find_next_record input = (evs, s) \<Longrightarrow> loop_test env input evs new_AzfpProfileHeader s"
| again: "loop_test env input evs ph s \<Longrightarrow> readinto ph s = (n, ph1, s1) \<Longrightarrow> n \<noteq> 0 \<Longrightarrow>
          loop_body env ph1 s1 = (evs', Continue, ph2, s2) \<Longrightarrow>
          loop_test env input (evs @ evs') ph2 s2"

section \<open>Properties\<close>

subsection \<open>Reading a channel\<close>

lemma take4_drop:
  assumes "k + 4 \<le> length xs"
  shows "take 4 (drop k xs) = [xs ! k, xs ! (k + 1), xs ! (k + 2), xs ! (k + 3)]"
proof -
  have "drop k xs = xs ! k # drop (Suc k) xs"
    using assms by (simp add: Cons_nth_drop_Suc)
  also have "drop (Suc k) xs = xs ! (Suc k) # drop (Suc (Suc k)) xs"
    using assms by (simp add: Cons_nth_drop_Suc)
  also have "drop (Suc (Suc k)) xs = xs ! (Suc (Suc k)) # drop (Suc (Suc (Suc k))) xs"
    using assms by (simp add: Cons_nth_drop_Suc)
  also have "drop (Suc (Suc (Suc k))) xs = xs ! (Suc (Suc (Suc k))) # drop (Suc (Suc (Suc (Suc k)))) xs"
    using assms by (simp add: Cons_nth_drop_Suc)
  finally show ?thesis by (simp add: eval_nat_numeral)
qed

lemma take2_drop:
  assumes "k + 2 \<le> length xs"
  shows "take 2 (drop k xs) = [xs ! k, xs ! (k + 1)]"
proof -
  have "drop k xs = xs ! k # drop (Suc k) xs"
    using assms by (simp add: Cons_nth_drop_Suc)
  also have "drop (Suc k) xs = xs ! (Suc k) # drop (Suc (Suc k)) xs"
    using assms by (simp add: Cons_nth_drop_Suc)
  finally show ?thesis by (simp add: eval_nat_numeral)
qed

lemma take1_drop:
  assumes "k < length xs"
  shows "take 1 (drop k xs) = [xs ! k]"
proof -
  have "drop k xs = xs ! k # drop (Suc k) xs"
    using assms by (simp add: Cons_nth_drop_Suc)
  then show ?thesis by simp
qed

lemma be_uint_4: "be_uint (take 4 (drop k xs)) = c_uint xs k" if "k + 4 \<le> length xs"
  using that by (simp add: take4_drop be_uint_def c_uint_def c_ushort_def c_ubyte_def numeral_3_eq_3)

lemma be_uint_2: "be_uint (take 2 (drop k xs)) = c_ushort xs k" if "k + 2 \<le> length xs"
  using that by (simp add: take2_drop be_uint_def c_ushort_def c_ubyte_def)

lemma be_uint_1: "be_uint (take 1 (drop k xs)) = c_ubyte xs k" if "k < length xs"
  using that take1_drop [of k xs] by (simp add: be_uint_def c_ubyte_def)

lemma unpack_I:
  assumes "4 * n \<le> length s"
  shows "struct_unpack n FmtI (take (calcsize n FmtI) s) = Inr (map (\<lambda>i. c_uint s (4 * i)) [0..<n])"
proof -
  have "be_uint (take 4 (drop (i * 4) (take (n * 4) s))) = c_uint s (4 * i)" if "i < n" for i
  proof -
    have "take 4 (drop (i * 4) (take (n * 4) s)) = take 4 (drop (i * 4) s)"
      using that by (simp add: drop_take min_def)
    moreover have "i * 4 + 4 \<le> length s" using that assms by simp
    ultimately show ?thesis by (simp add: be_uint_4 mult.commute)
  qed
  then show ?thesis using assms by (simp add: struct_unpack_def calcsize_def min_def)
qed

lemma unpack_H:
  assumes "2 * n \<le> length s"
  shows "struct_unpack n FmtH (take (calcsize n FmtH) s) = Inr (map (\<lambda>i. c_ushort s (2 * i)) [0..<n])"
proof -
  have "be_uint (take 2 (drop (i * 2) (take (n * 2) s))) = c_ushort s (2 * i)" if "i < n" for i
  proof -
    have "take 2 (drop (i * 2) (take (n * 2) s)) = take 2 (drop (i * 2) s)"
      using that by (simp add: drop_take min_def)
    moreover have "i * 2 + 2 \<le> length s" using that assms by simp
    ultimately show ?thesis by (simp add: be_uint_2 mult.commute)
  qed
  then show ?thesis using assms by (simp add: struct_unpack_def calcsize_def min_def)
qed

lemma unpack_B:
  assumes "n \<le> length s"
  shows "struct_unpack n FmtB (take n s) = Inr (map (\<lambda>i. c_ubyte s i) [0..<n])"
proof -
  have "be_uint (take 1 (drop i (take n s))) = c_ubyte s i" if "i < n" for i
  proof -
    have "take 1 (drop i (take n s)) = take 1 (drop i s)"
      using that by (simp add: drop_take min_def)
    moreover have "i < length s" using that assms by simp
    ultimately show ?thesis using be_uint_1 [of i s] by simp
  qed
  then show ?thesis using assms by (simp add: struct_unpack_def calcsize_def min_def)
qed

lemma unpack_short:
  "length s < calcsize n f \<Longrightarrow> struct_unpack n f (take (calcsize n f) s) = Inl StructError"
  by (simp add: struct_unpack_def)

lemma parse_channel_raw:
  assumes "chan < 4" "is_averaged_data ph chan = 0" "2 * num_bins ph chan \<le> length s"
  shows "parse_channel ph chan cv s =
           (Inr (cv[chan := Counts (map (\<lambda>i. c_ushort s (2 * i)) [0..<num_bins ph chan])]),
            drop (2 * num_bins ph chan) s)"
  using assms unpack_H [of "num_bins ph chan" s]
  by (simp add: parse_channel_def read_def calcsize_def mult.commute)

lemma linear_values_map:
  "linear_values (map f xs) (map g xs) d = map (\<lambda>i. (f i + g i * 0xFFFFFFFF) div d) xs"
  by (simp add: linear_values_def zip_map_map zip_same_conv_map)

lemma parse_channel_averaged:
  assumes "chan < 4" "is_averaged_data ph chan \<noteq> 0" "5 * num_bins ph chan \<le> length s"
  shows "parse_channel ph chan cv s =
           (Inr (cv[chan := Scaled (map (\<lambda>i. log_scale chan
                   ((c_uint s (4 * i) + c_ubyte s (4 * num_bins ph chan + i) * 0xFFFFFFFF)
                      div divisor ph chan)) [0..<num_bins ph chan])]),
            drop (5 * num_bins ph chan) s)"
proof -
  let ?n = "num_bins ph chan"
  have sums: "struct_unpack ?n FmtI (take (?n * 4) s) = Inr (map (\<lambda>i. c_uint s (4 * i)) [0..<?n])"
    using assms unpack_I [of ?n s] by (simp add: calcsize_def)
  have "struct_unpack ?n FmtB (take ?n (drop (?n * 4) s))
          = Inr (map (\<lambda>i. c_ubyte (drop (?n * 4) s) i) [0..<?n])"
    using assms by (intro unpack_B) simp
  moreover have "c_ubyte (drop (?n * 4) s) i = c_ubyte s (4 * ?n + i)" if "i < ?n" for i
    using that assms by (simp add: c_ubyte_def mult.commute)
  ultimately have ovfs: "struct_unpack ?n FmtB (take ?n (drop (?n * 4) s))
          = Inr (map (\<lambda>i. c_ubyte s (4 * ?n + i)) [0..<?n])"
    by simp
  show ?thesis
    using assms
    by (simp add: parse_channel_def read_def calcsize_def sums ovfs linear_values_map o_def)
qed

lemma parse_channel_short:
  assumes "chan < 4" "length s < chan_size ph chan"
  shows "parse_channel ph chan cv s = (Inl StructError, [])"
proof (cases "is_averaged_data ph chan = 0")
  case True
  with assms show ?thesis
    by (simp add: parse_channel_def read_def calcsize_def struct_unpack_def chan_size_def)
next
  case False
  let ?n = "num_bins ph chan"
  show ?thesis
  proof (cases "length s < ?n * 4")
    case True
    with False assms show ?thesis
      by (simp add: parse_channel_def read_def calcsize_def struct_unpack_def chan_size_def)
  next
    case ge: False
    then have "struct_unpack ?n FmtI (take (?n * 4) s) = Inr (map (\<lambda>i. c_uint s (4 * i)) [0..<?n])"
      using unpack_I [of ?n s] by (simp add: calcsize_def)
    moreover have "length (take ?n (drop (?n * 4) s)) \<noteq> ?n"
      using assms False ge by (simp add: chan_size_def)
    ultimately show ?thesis
      using False assms ge
      by (simp add: parse_channel_def read_def calcsize_def chan_size_def struct_unpack_def [of _ FmtB])
  qed
qed

subsection \<open>The averaged values (lines 247 to 258)\<close>

lemma averaged_example_fields:
  "num_bins averaged_example_header 0 = 2"
  "range_samples averaged_example_header 0 = 1"
  "is_averaged_data averaged_example_header 0 = 1"
  "is_averaged_pings averaged_example_header = 0"
  "num_pings_profile averaged_example_header = 1"
  by (simp_all add: averaged_example_header_def new_AzfpProfileHeader_def num_bins_def
        range_samples_def is_averaged_data_def is_averaged_pings_def num_pings_profile_def
        c_ushort_def c_ubyte_def)

lemma upt_0_2: "[0..<2] = [0, Suc 0]"
  by (simp add: numeral_2_eq_2)

text \<open>
  C1, as stated: the divisor of an averaged channel is \<open>num_bins[chan]\<close>, times
  \<open>num_pings_profile\<close> when the pings are averaged.  It fails on the example header: the
  channel has 2 bins and its pings are not averaged, and the code divides the sums 100 and
  200 by 1, the channel's \<open>range_samples\<close>.
\<close>

theorem divisor_num_bins_counterexample:
  "is_averaged_data averaged_example_header 0 \<noteq> 0
   \<and> is_averaged_pings averaged_example_header = 0
   \<and> num_bins averaged_example_header 0 = 2
   \<and> divisor averaged_example_header 0 \<noteq> num_bins averaged_example_header 0
   \<and> fst (parse_channel averaged_example_header 0
             [Counts [], Counts [], Counts [], Counts []]
             [0, 0, 0, 100, 0, 0, 0, 200, 0, 0])
       = Inr [Scaled [log_scale 0 (100 div 1), log_scale 0 (200 div 1)],
              Counts [], Counts [], Counts []]"
proof -
  have "parse_channel averaged_example_header 0 [Counts [], Counts [], Counts [], Counts []]
          [0, 0, 0, 100, 0, 0, 0, 200, 0, 0]
        = (Inr [Scaled [log_scale 0 100, log_scale 0 200], Counts [], Counts [], Counts []], [])"
    by (subst parse_channel_averaged)
       (simp_all add: averaged_example_fields upt_0_2 divisor_def c_uint_def c_ushort_def
          c_ubyte_def)
  then show ?thesis
    by (simp add: averaged_example_fields divisor_def)
qed

text \<open>
  C1, amended: for every averaged channel and every bin \<open>i\<close>, the value the parser stores
  is the scaled quotient of the reconstructed linear sum by \<open>range_samples[chan]\<close> times
  \<open>num_pings_profile\<close> when \<open>is_averaged_pings\<close> is nonzero, and by \<open>range_samples[chan]\<close>
  alone when it is zero.  The sum of bin \<open>i\<close> is the big-endian 32 bit value at byte \<open>4 i\<close>
  of the channel's data, its overflow count the byte at \<open>4 num_bins + i\<close>.
\<close>

theorem averaged_channel_divisor:
  assumes "chan < 4" and "is_averaged_data ph chan \<noteq> 0"
    and "5 * num_bins ph chan \<le> length s" and "i < num_bins ph chan"
  shows "\<exists>vs. fst (parse_channel ph chan cv s) = Inr (cv[chan := Scaled vs])
           \<and> length vs = num_bins ph chan
           \<and> vs ! i = log_scale chan
                ((c_uint s (4 * i) + c_ubyte s (4 * num_bins ph chan + i) * 0xFFFFFFFF)
                   div (if is_averaged_pings ph \<noteq> 0
                        then num_pings_profile ph * range_samples ph chan
                        else range_samples ph chan))"
proof -
  let ?vs = "map (\<lambda>i. log_scale chan
                ((c_uint s (4 * i) + c_ubyte s (4 * num_bins ph chan + i) * 0xFFFFFFFF)
                   div divisor ph chan)) [0..<num_bins ph chan]"
  have "parse_channel ph chan cv s = (Inr (cv[chan := Scaled ?vs]), drop (5 * num_bins ph chan) s)"
    using assms(1-3) by (rule parse_channel_averaged)
  then have "fst (parse_channel ph chan cv s) = Inr (cv[chan := Scaled ?vs])"
    by simp
  moreover have "length ?vs = num_bins ph chan"
    by simp
  moreover have "?vs ! i = log_scale chan
                ((c_uint s (4 * i) + c_ubyte s (4 * num_bins ph chan + i) * 0xFFFFFFFF)
                   div (if is_averaged_pings ph \<noteq> 0
                        then num_pings_profile ph * range_samples ph chan
                        else range_samples ph chan))"
    using assms(4) by (simp add: divisor_def)
  ultimately show ?thesis
    by blast
qed

theorem averaged_channel_divisor_witness:
  "\<exists>vs. fst (parse_channel averaged_example_header 0
                [Counts [], Counts [], Counts [], Counts []]
                [0, 0, 0, 100, 0, 0, 0, 200, 0, 0])
            = Inr ([Counts [], Counts [], Counts [], Counts []][0 := Scaled vs])
         \<and> length vs = 2
         \<and> vs ! 1 = log_scale 0 200"
  using averaged_channel_divisor [of 0 averaged_example_header
      "[0, 0, 0, 100, 0, 0, 0, 200, 0, 0]" 1 "[Counts [], Counts [], Counts [], Counts []]"]
  by (simp add: averaged_example_fields c_uint_def c_ushort_def c_ubyte_def)

text \<open>
  C2: the claim gives every unit of the overflow count the weight \<open>2 ^ 32\<close>.  The code
  multiplies the count by \<open>0xFFFFFFFF\<close>: on a channel of one bin whose sum is 0 and whose
  overflow count is 1, with divisor 1, it takes the logarithm of 4294967295.
\<close>

theorem overflow_weight_evaluated:
  "fst (parse_channel overflow_example_header 0
          [Counts [], Counts [], Counts [], Counts []] [0, 0, 0, 0, 1])
     = Inr [Scaled [log_scale 0 (2 ^ 32 - 1)], Counts [], Counts [], Counts []]
   \<and> linear_values [0] [1] 1 = [2 ^ 32 - 1]"
proof -
  have f: "num_bins overflow_example_header 0 = 1"
    "range_samples overflow_example_header 0 = 1"
    "is_averaged_data overflow_example_header 0 = 1"
    "is_averaged_pings overflow_example_header = 0"
    by (simp_all add: overflow_example_header_def new_AzfpProfileHeader_def num_bins_def
          range_samples_def is_averaged_data_def is_averaged_pings_def c_ushort_def c_ubyte_def)
  have "parse_channel overflow_example_header 0 [Counts [], Counts [], Counts [], Counts []]
          [0, 0, 0, 0, 1]
        = (Inr [Scaled [log_scale 0 4294967295], Counts [], Counts [], Counts []], [])"
    by (subst parse_channel_averaged)
       (simp_all add: f divisor_def c_uint_def c_ushort_def c_ubyte_def)
  then show ?thesis
    by (simp add: linear_values_def)
qed

subsection \<open>The timestamp (lines 260 to 263)\<close>

lemma days_before_year_Suc:
  "days_before_year (Suc (Suc n)) = days_before_year (Suc n) + int (days_in_year (Suc n))"
proof -
  have d4: "Suc n div 4 = n div 4 + (if Suc n mod 4 = 0 then 1 else 0)"
    by (simp add: div_Suc)
  have d100: "Suc n div 100 = n div 100 + (if Suc n mod 100 = 0 then 1 else 0)"
    by (simp add: div_Suc)
  have d400: "Suc n div 400 = n div 400 + (if Suc n mod 400 = 0 then 1 else 0)"
    by (simp add: div_Suc)
  have m1: "Suc n mod 100 = 0 \<Longrightarrow> Suc n mod 4 = 0"
    by presburger
  have m2: "Suc n mod 400 = 0 \<Longrightarrow> Suc n mod 100 = 0"
    by presburger
  have e: "days_before_year (Suc (Suc n))
             = int (Suc n) * 365 + int (Suc n div 4) - int (Suc n div 100) + int (Suc n div 400)"
    by (simp add: days_before_year_def zdiv_int Let_def)
  have e': "days_before_year (Suc n)
             = int n * 365 + int (n div 4) - int (n div 100) + int (n div 400)"
    by (simp add: days_before_year_def zdiv_int Let_def)
  show ?thesis
    unfolding e e' d4 d100 d400 days_in_year_def is_leap_def
    using m1 m2 by auto
qed

lemma days_before_year_diff:
  assumes "1 \<le> a" and "a \<le> b"
  shows "days_before_year b - days_before_year a = int (sum_list (map days_in_year [a..<b]))"
  using assms(2)
proof (induction b rule: dec_induct)
  case base
  show ?case by simp
next
  case (step n)
  from step.hyps assms(1) obtain k where "n = Suc k"
    by (cases n) auto
  with step.IH step.hyps show ?case
    by (simp add: days_before_year_Suc)
qed

lemma days_before_month_sum:
  assumes "1 \<le> m" "m \<le> 12"
  shows "days_before_month y m = int (sum_list (map (days_in_month y) [1..<m]))"
proof -
  from assms have "m = 1 \<or> m = 2 \<or> m = 3 \<or> m = 4 \<or> m = 5 \<or> m = 6 \<or> m = 7 \<or> m = 8
      \<or> m = 9 \<or> m = 10 \<or> m = 11 \<or> m = 12"
    by arith
  then show ?thesis
    by (elim disjE)
       (simp_all add: days_before_month_def days_in_month_def DAYS_BEFORE_MONTH_def
          DAYS_IN_MONTH_def upt_conv_Cons)
qed

lemma toordinal_diff:
  assumes "1 \<le> y" "1 \<le> m" "m \<le> 12"
  shows "ymd2ord y m d - ymd2ord 1900 1 1 = days_since_1900 y m d"
proof -
  have y: "days_before_year y - days_before_year 1900
             = (if 1900 \<le> y then int (sum_list (map days_in_year [1900..<y]))
                else - int (sum_list (map days_in_year [y..<1900])))"
  proof (cases "1900 \<le> y")
    case True
    then show ?thesis using days_before_year_diff [of 1900 y] by simp
  next
    case False
    then show ?thesis using days_before_year_diff [of y 1900] assms(1) by simp
  qed
  have m: "days_before_month y m = int (sum_list (map (days_in_month y) [1..<m]))"
    using assms(2,3) by (rule days_before_month_sum)
  have "days_before_month 1900 1 = 0"
    by (simp add: days_before_month_def DAYS_BEFORE_MONTH_def)
  then have "ymd2ord y m d - ymd2ord 1900 1 1
          = (days_before_year y - days_before_year 1900) + days_before_month y m + (int d - 1)"
    by (simp add: ymd2ord_def)
  then show ?thesis
    unfolding y m by (simp add: days_since_1900_def)
qed

lemma transmission_timestamp_valid:
  assumes "valid_calendar ph"
  shows "transmission_timestamp ph = Inr (seconds_since_1900 ph)"
proof -
  let ?t = "\<lparr>dt_year = year ph, dt_month = month ph, dt_day = day ph, dt_hour = hour ph,
             dt_minute = minute ph, dt_second = second ph,
             dt_microsecond = hundredths ph * 10000\<rparr>"
  have new: "datetime_new (year ph) (month ph) (day ph) (hour ph) (minute ph) (second ph)
               (hundredths ph * 10000) = Inr ?t"
    using assms by (simp add: datetime_new_def valid_calendar_def)
  have ord: "toordinal ?t - toordinal datetime_1900_1_1
               = days_since_1900 (year ph) (month ph) (day ph)"
    using assms toordinal_diff [of "year ph" "month ph" "day ph"]
    by (simp add: toordinal_def datetime_1900_1_1_def valid_calendar_def)
  have "datetime_sub ?t datetime_1900_1_1
          = (days_since_1900 (year ph) (month ph) (day ph) * 86400
             + int (second ph + minute ph * 60 + hour ph * 3600)) * 1000000
            + int (hundredths ph * 10000)"
    unfolding datetime_sub_def ord by (simp add: datetime_1900_1_1_def)
  then have "total_seconds (datetime_sub ?t datetime_1900_1_1) = seconds_since_1900 ph"
    by (simp add: total_seconds_def seconds_since_1900_def field_simps)
  with new show ?thesis
    by (simp add: transmission_timestamp_def)
qed

lemma timestamp_example_fields:
  "year timestamp_example_header = 2014" "month timestamp_example_header = 8"
  "day timestamp_example_header = 17" "hour timestamp_example_header = 12"
  "minute timestamp_example_header = 55" "second timestamp_example_header = 0"
  "hundredths timestamp_example_header = 0" "num_channels timestamp_example_header = 0"
  by (simp_all add: timestamp_example_header_def new_AzfpProfileHeader_def year_def month_def
        day_def hour_def minute_def second_def hundredths_def num_channels_def c_ushort_def c_ubyte_def)

lemma timestamp_example_valid: "valid_calendar timestamp_example_header"
  by (simp add: valid_calendar_def timestamp_example_fields days_in_month_def DAYS_IN_MONTH_def)

lemma timestamp_example_value: "transmission_timestamp timestamp_example_header = Inr 3617268900"
  by (simp add: transmission_timestamp_def timestamp_example_fields datetime_new_def
        days_in_month_def DAYS_IN_MONTH_def total_seconds_def datetime_sub_def toordinal_def
        ymd2ord_def days_before_year_def days_before_month_def DAYS_BEFORE_MONTH_def is_leap_def
        datetime_1900_1_1_def)

subsection \<open>Reading the channels of a record\<close>

lemma c_ushort_take: "k + 2 \<le> n \<Longrightarrow> c_ushort (take n s) k = c_ushort s k"
  by (simp add: c_ushort_def c_ubyte_def)

lemma c_uint_take: "k + 4 \<le> n \<Longrightarrow> c_uint (take n s) k = c_uint s k"
  by (simp add: c_uint_def c_ushort_def c_ubyte_def)

lemma c_ubyte_take: "k < n \<Longrightarrow> c_ubyte (take n s) k = c_ubyte s k"
  by (simp add: c_ubyte_def)

lemma parse_channel_enough:
  assumes "chan < 4" and "chan_size ph chan \<le> length s"
  shows "\<exists>x. parse_channel ph chan cv s = (Inr (cv[chan := x]), drop (chan_size ph chan) s)
           \<and> parse_channel ph chan cv (take (chan_size ph chan) s) = (Inr (cv[chan := x]), [])"
proof (cases "is_averaged_data ph chan = 0")
  case True
  let ?n = "num_bins ph chan"
  have n: "chan_size ph chan = 2 * ?n" using True by (simp add: chan_size_def)
  have a: "parse_channel ph chan cv s =
             (Inr (cv[chan := Counts (map (\<lambda>i. c_ushort s (2 * i)) [0..<?n])]), drop (2 * ?n) s)"
    using assms True by (intro parse_channel_raw) (simp_all add: n)
  have "parse_channel ph chan cv (take (2 * ?n) s) =
          (Inr (cv[chan := Counts (map (\<lambda>i. c_ushort (take (2 * ?n) s) (2 * i)) [0..<?n])]),
           drop (2 * ?n) (take (2 * ?n) s))"
    using assms True by (intro parse_channel_raw) (simp_all add: n)
  moreover have "map (\<lambda>i. c_ushort (take (2 * ?n) s) (2 * i)) [0..<?n]
                   = map (\<lambda>i. c_ushort s (2 * i)) [0..<?n]"
    by (rule map_cong) (simp_all add: c_ushort_take)
  ultimately have "parse_channel ph chan cv (take (2 * ?n) s) =
          (Inr (cv[chan := Counts (map (\<lambda>i. c_ushort s (2 * i)) [0..<?n])]), [])"
    by simp
  with a show ?thesis unfolding n by blast
next
  case False
  let ?n = "num_bins ph chan"
  have n: "chan_size ph chan = 5 * ?n" using False by (simp add: chan_size_def)
  let ?f = "\<lambda>t i. log_scale chan
              ((c_uint t (4 * i) + c_ubyte t (4 * ?n + i) * 0xFFFFFFFF) div divisor ph chan)"
  have a: "parse_channel ph chan cv s =
             (Inr (cv[chan := Scaled (map (?f s) [0..<?n])]), drop (5 * ?n) s)"
    using assms False by (intro parse_channel_averaged) (simp_all add: n)
  have "parse_channel ph chan cv (take (5 * ?n) s) =
          (Inr (cv[chan := Scaled (map (?f (take (5 * ?n) s)) [0..<?n])]),
           drop (5 * ?n) (take (5 * ?n) s))"
    using assms False by (intro parse_channel_averaged) (simp_all add: n)
  moreover have "map (?f (take (5 * ?n) s)) [0..<?n] = map (?f s) [0..<?n]"
    by (rule map_cong) (simp_all add: c_uint_take c_ubyte_take)
  ultimately have "parse_channel ph chan cv (take (5 * ?n) s) =
          (Inr (cv[chan := Scaled (map (?f s) [0..<?n])]), [])"
    by simp
  with a show ?thesis unfolding n by blast
qed

lemma parse_channels_enough:
  assumes "\<forall>c\<in>set chans. c < 4"
    and "sum_list (map (chan_size ph) chans) \<le> length s"
  shows "\<exists>cv'. parse_channels ph chans cv s
                  = (Inr cv', drop (sum_list (map (chan_size ph) chans)) s)
            \<and> parse_channels ph chans cv (take (sum_list (map (chan_size ph) chans)) s)
                  = (Inr cv', [])
            \<and> length cv' = length cv
            \<and> (\<forall>c. c \<notin> set chans \<longrightarrow> cv' ! c = cv ! c)"
  using assms
proof (induction chans arbitrary: cv s)
  case Nil
  then show ?case by simp
next
  case (Cons c cs)
  let ?n = "chan_size ph c" and ?m = "sum_list (map (chan_size ph) cs)"
  from Cons.prems have c: "c < 4" and le: "?n + ?m \<le> length s" by simp_all
  from c le obtain x where x: "parse_channel ph c cv s = (Inr (cv[c := x]), drop ?n s)"
      "parse_channel ph c cv (take ?n s) = (Inr (cv[c := x]), [])"
    using parse_channel_enough [of c ph s cv] by auto
  from c le obtain y where
      y: "parse_channel ph c cv (take (?n + ?m) s) = (Inr (cv[c := y]), drop ?n (take (?n + ?m) s))"
      "parse_channel ph c cv (take ?n (take (?n + ?m) s)) = (Inr (cv[c := y]), [])"
    using parse_channel_enough [of c ph "take (?n + ?m) s" cv] by auto
  have "take ?n (take (?n + ?m) s) = take ?n s" by (simp add: min_def)
  with x(2) y(2) have xy: "cv[c := y] = cv[c := x]" by simp
  have dt: "drop ?n (take (?n + ?m) s) = take ?m (drop ?n s)"
    by (simp add: drop_take)
  from Cons.prems le have "\<forall>c\<in>set cs. c < 4" "?m \<le> length (drop ?n s)" by simp_all
  from Cons.IH [OF this, of "cv[c := x]"] obtain cv' where
      cv': "parse_channels ph cs (cv[c := x]) (drop ?n s) = (Inr cv', drop ?m (drop ?n s))"
      "parse_channels ph cs (cv[c := x]) (take ?m (drop ?n s)) = (Inr cv', [])"
      "length cv' = length (cv[c := x])"
      "\<forall>k. k \<notin> set cs \<longrightarrow> cv' ! k = cv[c := x] ! k"
    by blast
  have "parse_channels ph (c # cs) cv s = (Inr cv', drop (?n + ?m) s)"
    using x(1) cv'(1) by (simp add: add.commute)
  moreover have "parse_channels ph (c # cs) cv (take (?n + ?m) s) = (Inr cv', [])"
    using y(1) xy dt cv'(2) by simp
  moreover have "length cv' = length cv" using cv'(3) by simp
  moreover have "\<forall>k. k \<notin> set (c # cs) \<longrightarrow> cv' ! k = cv ! k"
    using cv'(4) by simp
  ultimately show ?case by simp
qed

lemma parse_channels_short:
  assumes "\<forall>c\<in>set chans. c < 4"
    and "length s < sum_list (map (chan_size ph) chans)"
  shows "parse_channels ph chans cv s = (Inl StructError, [])"
  using assms
proof (induction chans arbitrary: cv s)
  case Nil
  then show ?case by simp
next
  case (Cons c cs)
  let ?n = "chan_size ph c"
  from Cons.prems have c: "c < 4" by simp
  show ?case
  proof (cases "length s < ?n")
    case True
    with c show ?thesis by (simp add: parse_channel_short)
  next
    case False
    with c obtain x where x: "parse_channel ph c cv s = (Inr (cv[c := x]), drop ?n s)"
      using parse_channel_enough [of c ph s cv] by auto
    from Cons.prems False have "\<forall>c\<in>set cs. c < 4"
        "length (drop ?n s) < sum_list (map (chan_size ph) cs)" by simp_all
    from Cons.IH [OF this] x show ?thesis by simp
  qed
qed

lemma parse_channels_append:
  "parse_channels ph (xs @ ys) cv s =
     (case parse_channels ph xs cv s of
        (Inl e, s') \<Rightarrow> (Inl e, s')
      | (Inr cv', s') \<Rightarrow> parse_channels ph ys cv' s')"
  by (induction xs arbitrary: cv s) (auto split: prod.splits sum.splits)

lemma parse_record_enough:
  assumes "num_channels ph \<le> 4" and "body_size ph \<le> length s"
  shows "\<exists>cv. parse_record env ph s = (assemble env ph cv, drop (body_size ph) s)
           \<and> parse_record env ph (take (body_size ph) s) = (assemble env ph cv, [])
           \<and> length cv = 4
           \<and> (\<forall>c. num_channels ph \<le> c \<longrightarrow> c < 4 \<longrightarrow> cv ! c = Counts [])"
proof -
  let ?cv0 = "[Counts [], Counts [], Counts [], Counts []]"
  have "\<forall>c\<in>set [0..<num_channels ph]. c < 4" using assms(1) by simp
  moreover have "sum_list (map (chan_size ph) [0..<num_channels ph]) \<le> length s"
    using assms(2) by (simp add: body_size_def)
  ultimately obtain cv where
      cv: "parse_channels ph [0..<num_channels ph] ?cv0 s = (Inr cv, drop (body_size ph) s)"
      "parse_channels ph [0..<num_channels ph] ?cv0 (take (body_size ph) s) = (Inr cv, [])"
      "length cv = length ?cv0"
      "\<forall>c. c \<notin> set [0..<num_channels ph] \<longrightarrow> cv ! c = ?cv0 ! c"
    unfolding body_size_def using parse_channels_enough [of "[0..<num_channels ph]" ph s ?cv0]
    by blast
  have "cv ! c = Counts []" if "num_channels ph \<le> c" "c < 4" for c
  proof -
    from that cv(4) have "cv ! c = ?cv0 ! c" by simp
    moreover from that(2) have "c = 0 \<or> c = 1 \<or> c = 2 \<or> c = 3" by arith
    ultimately show ?thesis by auto
  qed
  with cv(1-3) show ?thesis
    by (intro exI [of _ cv]) (simp add: parse_record_def)
qed

lemma parse_record_short:
  assumes "num_channels ph \<le> 4" and "length s < body_size ph"
  shows "parse_record env ph s = (Inl StructError, [])"
proof -
  have "parse_channels ph [0..<num_channels ph] [Counts [], Counts [], Counts [], Counts []] s
          = (Inl StructError, [])"
    using assms by (intro parse_channels_short) (simp_all add: body_size_def)
  then show ?thesis by (simp add: parse_record_def)
qed

lemma parse_record_too_many_channels:
  assumes "4 < num_channels ph"
    and "sum_list (map (chan_size ph) [0..<4]) \<le> length s"
  shows "parse_record env ph s
           = (Inl IndexError, drop (sum_list (map (chan_size ph) [0..<4])) s)"
proof -
  let ?cv0 = "[Counts [], Counts [], Counts [], Counts []]"
  have split: "[0..<num_channels ph] = [0..<4] @ 4 # [5..<num_channels ph]"
  proof -
    have "[0..<num_channels ph] = [0..<4] @ [4..<num_channels ph]"
      using assms(1) by (metis le_add1 less_imp_le_nat upt_add_eq_append le_add_diff_inverse add_0)
    moreover have "[4..<num_channels ph] = 4 # [5..<num_channels ph]"
      using assms(1) by (simp add: upt_conv_Cons)
    ultimately show ?thesis by simp
  qed
  obtain cv where cv: "parse_channels ph [0..<4] ?cv0 s
                        = (Inr cv, drop (sum_list (map (chan_size ph) [0..<4])) s)"
    using parse_channels_enough [of "[0..<4]" ph s ?cv0] assms(2) by auto
  show ?thesis
    unfolding parse_record_def split parse_channels_append cv
    by (simp add: parse_channel_def)
qed

lemma try_record_prefix:
  assumes "num_channels ph \<le> 4" and "body_size ph \<le> length s"
  shows "try_record env ph s
           = (fst (try_record env ph (take (body_size ph) s)), drop (body_size ph) s)"
proof -
  obtain cv where "parse_record env ph s = (assemble env ph cv, drop (body_size ph) s)"
      "parse_record env ph (take (body_size ph) s) = (assemble env ph cv, [])"
    using parse_record_enough [OF assms, of env] by blast
  then show ?thesis
    by (simp add: try_record_def split: sum.splits prod.splits option.splits)
qed

lemma try_record_short:
  assumes "num_channels ph \<le> 4" and "length s < body_size ph"
  shows "try_record env ph s = (([Callback Unpacking_the_data], Continue), [])"
  using parse_record_short [OF assms, of env] by (simp add: try_record_def except_def)

lemma try_record_bad_date:
  assumes "num_channels ph \<le> 4" and "body_size ph \<le> length s"
    and "transmission_timestamp ph = Inl ValueError"
  shows "try_record env ph s
           = (([Callback Transition_timestamp_invalid], Continue), drop (body_size ph) s)"
proof -
  obtain cv where "parse_record env ph s = (assemble env ph cv, drop (body_size ph) s)"
    using parse_record_enough [OF assms(1,2), of env] by blast
  moreover have "assemble env ph cv = Inl ValueError"
    using assms(3) by (simp add: assemble_def)
  ultimately show ?thesis by (simp add: try_record_def except_def)
qed

lemma try_record_too_many_channels:
  assumes "4 < num_channels ph"
    and "sum_list (map (chan_size ph) [0..<4]) \<le> length s"
  shows "try_record env ph s
           = (([], Raise IndexError), drop (sum_list (map (chan_size ph) [0..<4])) s)"
  using parse_record_too_many_channels [OF assms, of env]
  by (simp add: try_record_def except_def)

subsection \<open>One record\<close>

lemma plain_collaborators_succeed: "collaborators_succeed plain_collaborators"
  by (simp add: collaborators_succeed_def plain_collaborators_def values_of_def chan_len_def
        comp_def split: chan_data.splits)

lemma zplsc_particle_data_scalars:
  "zplsc_particle_data ph ts cv dr = Inr d \<Longrightarrow> header_scalars ph d"
  by (auto simp: zplsc_particle_data_def header_scalars_def split: if_splits)

lemma assemble_succeeds:
  assumes "collaborators_succeed env" and "transmission_timestamp ph = Inr ts"
    and "length cv = 4"
  shows "\<exists>d cv' dr. assemble env ph cv = Inr (d, ts, cv', dr) \<and> header_scalars ph d
           \<and> d TRANS_TIMESTAMP = Some (PFloat ts)"
proof -
  from assms(1) obtain ss dr sa where
      m: "compute_echogram_metadata env ph = Inr (ss, dr, sa)" "4 \<le> length dr"
    unfolding collaborators_succeed_def by blast
  from assms(1) obtain cv' where
      b: "compute_backscatter env ph cv ss dr sa = Inr cv'" "map length cv' = map chan_len cv"
    unfolding collaborators_succeed_def by blast
  from b(2) have "length cv' = length cv" by (metis length_map)
  with assms(3) m(2) obtain d where d: "zplsc_particle_data ph ts cv' dr = Inr d"
    by (simp add: zplsc_particle_data_def)
  then have "header_scalars ph d" by (rule zplsc_particle_data_scalars)
  moreover from d have "d TRANS_TIMESTAMP = Some (PFloat ts)"
    by (auto simp: zplsc_particle_data_def split: if_splits)
  ultimately show ?thesis
    using assms(2) m(1) b(1) d by (simp add: assemble_def)
qed

lemma try_record_good:
  assumes "collaborators_succeed env" and "num_channels ph \<le> 4"
    and "body_size ph \<le> length s" and "transmission_timestamp ph = Inr ts"
  shows "\<exists>p. try_record env ph s = (([Particle p], Continue), drop (body_size ph) s)
           \<and> header_scalars ph (raw_data p) \<and> port_timestamp p = ts
           \<and> raw_data p TRANS_TIMESTAMP = Some (PFloat ts)"
proof -
  obtain cv where cv: "parse_record env ph s = (assemble env ph cv, drop (body_size ph) s)"
      "length cv = 4"
    using parse_record_enough [OF assms(2,3), of env] by blast
  from assemble_succeeds [OF assms(1,4) cv(2)] obtain d cv' dr where
      d: "assemble env ph cv = Inr (d, ts, cv', dr)" "header_scalars ph d"
         "d TRANS_TIMESTAMP = Some (PFloat ts)"
    by blast
  have "extract_sample env d ts
          = Inr (Some \<lparr>raw_data = d, port_timestamp = ts, internal_timestamp = ts\<rparr>)"
    using assms(1) unfolding collaborators_succeed_def by blast
  with cv(1) d show ?thesis
    by (simp add: try_record_def)
qed

lemma datetime_new_error: "datetime_new y m d hh mm ss us = Inl e \<Longrightarrow> e = ValueError"
  by (simp add: datetime_new_def split: if_splits)

lemma transmission_timestamp_cases:
  "(\<exists>ts. transmission_timestamp ph = Inr ts) \<or> transmission_timestamp ph = Inl ValueError"
  by (auto simp: transmission_timestamp_def split: sum.splits dest: datetime_new_error)

lemma try_record_continues:
  assumes "collaborators_succeed env" and "num_channels ph \<le> 4"
    and "body_size ph \<le> length s"
  shows "\<exists>evs. try_record env ph s = ((evs, Continue), drop (body_size ph) s)"
  using transmission_timestamp_cases [of ph]
proof
  assume "\<exists>ts. transmission_timestamp ph = Inr ts"
  then obtain ts where "transmission_timestamp ph = Inr ts" ..
  from try_record_good [OF assms this] show ?thesis by blast
next
  assume "transmission_timestamp ph = Inl ValueError"
  from try_record_bad_date [OF assms(2,3) this] show ?thesis by blast
qed

subsection \<open>The parse loop, record by record\<close>

lemma find_next_record_delimiter:
  "find_next_record (PROFILE_DATA_DELIMITER @ s) = ([], s)"
  by (simp add: find_next_record_def read_def PROFILE_DATA_DELIMITER_def scan_delimiter.simps)

lemma find_next_record_Nil: "find_next_record [] = ([], [])"
  by (simp add: find_next_record_def read_def scan_delimiter.simps)

lemma parse_loop_Nil: "parse_loop env ph [] = ([], None)"
  by (subst parse_loop.simps) (simp add: readinto_def)

lemma parse_file_Nil: "parse_file env [] = ([], None)"
  by (simp add: parse_file_def find_next_record_Nil parse_loop_Nil)

lemma readinto_new:
  "length ph = 122 \<Longrightarrow> readinto new_AzfpProfileHeader (ph @ s) = (122, ph, s)"
  by (simp add: readinto_def new_AzfpProfileHeader_def)

lemma parse_loop_Continue:
  assumes "length ph = 122" and "try_record env ph s = ((evs, Continue), s')"
  shows "parse_loop env new_AzfpProfileHeader (ph @ s)
           = (evs @ fst (parse_file env s'), snd (parse_file env s'))"
proof -
  obtain evs' s2 where f: "find_next_record s' = (evs', s2)" by (cases "find_next_record s'")
  obtain evs2 r where l: "parse_loop env new_AzfpProfileHeader s2 = (evs2, r)"
    by (cases "parse_loop env new_AzfpProfileHeader s2")
  have b: "loop_body env ph s = (evs @ evs', Continue, new_AzfpProfileHeader, s2)"
    using assms(2) f by (simp add: loop_body_def)
  have "parse_loop env new_AzfpProfileHeader (ph @ s) = ((evs @ evs') @ evs2, r)"
    by (subst parse_loop.simps) (simp add: readinto_new [OF assms(1)] b l)
  moreover have "parse_file env s' = (evs' @ evs2, r)"
    by (simp add: parse_file_def f l)
  ultimately show ?thesis by simp
qed

lemma parse_file_Continue:
  assumes "length ph = 122" and "try_record env ph s = ((evs, Continue), s')"
  shows "parse_file env (PROFILE_DATA_DELIMITER @ ph @ s)
           = (evs @ fst (parse_file env s'), snd (parse_file env s'))"
  using parse_loop_Continue [OF assms]
  by (simp add: parse_file_def find_next_record_delimiter)

lemma parse_file_Raise:
  assumes "length ph = 122" and "try_record env ph s = ((evs, Raise e), s')"
  shows "parse_file env (PROFILE_DATA_DELIMITER @ ph @ s) = (evs, Some e)"
proof -
  have b: "loop_body env ph s = (evs, Raise e, ph, s')"
    using assms(2) by (simp add: loop_body_def)
  have "parse_loop env new_AzfpProfileHeader (ph @ s) = (evs, Some e)"
    by (subst parse_loop.simps) (simp add: readinto_new [OF assms(1)] b)
  then show ?thesis
    by (simp add: parse_file_def find_next_record_delimiter)
qed

lemma scan_delimiter_garbage:
  "\<not> has_delimiter (a # b # t) \<Longrightarrow>
     scan_delimiter [a, b] (t @ PROFILE_DATA_DELIMITER @ s) g = (False, s)"
proof (induction t arbitrary: a b g)
  case Nil
  then have ab: "[a, b] \<noteq> PROFILE_DATA_DELIMITER" by simp
  have "scan_delimiter [a, b] ([] @ PROFILE_DATA_DELIMITER @ s) g
          = scan_delimiter [b, 0xFD] (0x02 # s) False"
    using ab by (subst scan_delimiter.simps) (auto simp: read_def PROFILE_DATA_DELIMITER_def)
  also have "\<dots> = scan_delimiter [0xFD, 0x02] s False"
    by (subst scan_delimiter.simps) (simp add: read_def PROFILE_DATA_DELIMITER_def)
  also have "\<dots> = (False, s)"
    by (subst scan_delimiter.simps) (simp add: PROFILE_DATA_DELIMITER_def)
  finally show ?case .
next
  case (Cons c t)
  then have ab: "[a, b] \<noteq> PROFILE_DATA_DELIMITER" and rest: "\<not> has_delimiter (b # c # t)"
    by simp_all
  have "scan_delimiter [a, b] ((c # t) @ PROFILE_DATA_DELIMITER @ s) g
          = scan_delimiter [b, c] (t @ PROFILE_DATA_DELIMITER @ s) False"
    using ab by (subst scan_delimiter.simps) (auto simp: read_def)
  also have "\<dots> = (False, s)" using rest by (rule Cons.IH)
  finally show ?case .
qed

lemma find_next_record_garbage:
  assumes "g \<noteq> []" and "\<not> has_delimiter g"
  shows "find_next_record (g @ PROFILE_DATA_DELIMITER @ s)
           = ([Callback Invalid_record_delimiter], s)"
proof (cases g)
  case Nil
  with assms(1) show ?thesis by simp
next
  case (Cons a t)
  show ?thesis
  proof (cases t)
    case Nil
    have "scan_delimiter [a, 0xFD] (0x02 # s) True = scan_delimiter [0xFD, 0x02] s False"
      by (subst scan_delimiter.simps) (simp add: read_def PROFILE_DATA_DELIMITER_def)
    also have "\<dots> = (False, s)"
      by (subst scan_delimiter.simps) (simp add: PROFILE_DATA_DELIMITER_def)
    finally show ?thesis
      using Cons Nil by (simp add: find_next_record_def read_def PROFILE_DATA_DELIMITER_def)
  next
    case (Cons b u)
    with \<open>g = a # t\<close> assms(2) have "\<not> has_delimiter (a # b # u)" by simp
    from scan_delimiter_garbage [OF this, of s True] show ?thesis
      using Cons \<open>g = a # t\<close> by (simp add: find_next_record_def read_def)
  qed
qed

lemma parse_file_frame:
  assumes "well_formed ph body" and "try_record env ph body = ((evs, Continue), s')"
  shows "parse_file env (frame ph body @ rest)
           = (evs @ fst (parse_file env rest), snd (parse_file env rest))"
proof -
  from assms(1) have wf: "length ph = 122" "num_channels ph \<le> 4" "body_size ph = length body"
    by (simp_all add: well_formed_def)
  have "try_record env ph (body @ rest) = ((evs, Continue), rest)"
    using try_record_prefix [of ph "body @ rest" env] wf assms(2) by simp
  from parse_file_Continue [OF wf(1) this] show ?thesis
    by (simp add: frame_def)
qed

lemma parse_file_records:
  assumes "collaborators_succeed env"
    and "\<forall>(ph, body)\<in>set rs. well_formed ph body \<and> valid_calendar ph"
  shows "\<exists>ps. parse_file env (records rs @ rest)
                 = (map Particle ps @ fst (parse_file env rest), snd (parse_file env rest))
           \<and> list_all2 (\<lambda>(ph, body) p. header_scalars ph (raw_data p)
                 \<and> port_timestamp p = seconds_since_1900 ph) rs ps"
  using assms(2)
proof (induction rs)
  case Nil
  show ?case by (simp add: records_def)
next
  case (Cons r rs)
  obtain ph body where r: "r = (ph, body)" by (cases r)
  from Cons.prems r have wf: "well_formed ph body" and v: "valid_calendar ph"
    and rest: "\<forall>(ph, body)\<in>set rs. well_formed ph body \<and> valid_calendar ph"
    by simp_all
  from Cons.IH [OF rest] obtain ps where
      ps: "parse_file env (records rs @ rest)
             = (map Particle ps @ fst (parse_file env rest), snd (parse_file env rest))"
      "list_all2 (\<lambda>(ph, body) p. header_scalars ph (raw_data p)
                 \<and> port_timestamp p = seconds_since_1900 ph) rs ps"
    by blast
  from wf have "num_channels ph \<le> 4" "body_size ph \<le> length body"
    by (simp_all add: well_formed_def)
  from try_record_good [OF assms(1) this transmission_timestamp_valid [OF v]]
  obtain p where p: "try_record env ph body = (([Particle p], Continue), drop (body_size ph) body)"
      "header_scalars ph (raw_data p)" "port_timestamp p = seconds_since_1900 ph"
    by blast
  have "parse_file env (frame ph body @ records rs @ rest)
          = ([Particle p] @ fst (parse_file env (records rs @ rest)),
             snd (parse_file env (records rs @ rest)))"
    using wf p(1) by (rule parse_file_frame)
  then have "parse_file env (records (r # rs) @ rest)
          = (map Particle (p # ps) @ fst (parse_file env rest), snd (parse_file env rest))"
    using ps(1) r by (simp add: records_def)
  moreover have "list_all2 (\<lambda>(ph, body) p. header_scalars ph (raw_data p)
                 \<and> port_timestamp p = seconds_since_1900 ph) (r # rs) (p # ps)"
    using ps(2) p(2,3) r by simp
  ultimately show ?case by blast
qed

lemma timestamp_example_well_formed: "well_formed timestamp_example_header []"
proof -
  have "length timestamp_example_header = 122"
    by (simp add: timestamp_example_header_def new_AzfpProfileHeader_def)
  then show ?thesis
    by (simp add: well_formed_def body_size_def timestamp_example_fields)
qed

subsection \<open>Streams of well-formed records\<close>







text \<open>
  C4: bytes inserted between a well-formed record and the next record, at least one and
  without the delimiter among them, change the events of the parse by exactly one call of
  the exception callback, made where the bytes stand: the particles are the same, and the
  callback is called once more, not once per byte.
\<close>

theorem resync_after_inserted_bytes:
  assumes "collaborators_succeed env" and "well_formed ph1 body1"
    and "g \<noteq> []" and "\<not> has_delimiter g"
  shows "\<exists>evs1 evs2 r.
           parse_file env (frame ph1 body1 @ frame ph2 body2 @ rest) = (evs1 @ evs2, r)
         \<and> parse_file env (frame ph1 body1 @ g @ frame ph2 body2 @ rest)
             = (evs1 @ Callback Invalid_record_delimiter # evs2, r)
         \<and> particles (evs1 @ Callback Invalid_record_delimiter # evs2) = particles (evs1 @ evs2)
         \<and> callbacks (evs1 @ Callback Invalid_record_delimiter # evs2)
             = callbacks evs1 @ Invalid_record_delimiter # callbacks evs2"
proof -
  from assms(2) have "num_channels ph1 \<le> 4" "body_size ph1 \<le> length body1"
    by (simp_all add: well_formed_def)
  from try_record_continues [OF assms(1) this] obtain evs1 s' where
      t: "try_record env ph1 body1 = ((evs1, Continue), s')"
    by blast
  let ?tail = "ph2 @ body2 @ rest"
  obtain evs2 r where l: "parse_loop env new_AzfpProfileHeader ?tail = (evs2, r)"
    by (cases "parse_loop env new_AzfpProfileHeader ?tail")
  have a: "parse_file env (frame ph2 body2 @ rest) = (evs2, r)"
    using l by (simp add: parse_file_def frame_def find_next_record_delimiter)
  have b: "parse_file env (g @ frame ph2 body2 @ rest)
             = (Callback Invalid_record_delimiter # evs2, r)"
    using l find_next_record_garbage [OF assms(3,4), of ?tail]
    by (simp add: parse_file_def frame_def)
  have "parse_file env (frame ph1 body1 @ frame ph2 body2 @ rest) = (evs1 @ evs2, r)"
    using parse_file_frame [OF assms(2) t, of "frame ph2 body2 @ rest"] a by simp
  moreover have "parse_file env (frame ph1 body1 @ g @ frame ph2 body2 @ rest)
             = (evs1 @ Callback Invalid_record_delimiter # evs2, r)"
    using parse_file_frame [OF assms(2) t, of "g @ frame ph2 body2 @ rest"] b by simp
  moreover have "particles (evs1 @ Callback Invalid_record_delimiter # evs2)
                   = particles (evs1 @ evs2)"
    by (simp add: particles_def map_filter_def)
  moreover have "callbacks (evs1 @ Callback Invalid_record_delimiter # evs2)
             = callbacks evs1 @ Invalid_record_delimiter # callbacks evs2"
    by (simp add: callbacks_def map_filter_def)
  ultimately show ?thesis by blast
qed

theorem resync_after_inserted_bytes_witness:
  "\<exists>evs1 evs2 r.
     parse_file plain_collaborators
       (frame timestamp_example_header [] @ frame timestamp_example_header [] @ [])
       = (evs1 @ evs2, r)
   \<and> parse_file plain_collaborators
       (frame timestamp_example_header [] @ [0x00, 0xFD, 0xFD] @ frame timestamp_example_header [] @ [])
       = (evs1 @ Callback Invalid_record_delimiter # evs2, r)
   \<and> particles (evs1 @ Callback Invalid_record_delimiter # evs2) = particles (evs1 @ evs2)
   \<and> callbacks (evs1 @ Callback Invalid_record_delimiter # evs2)
       = callbacks evs1 @ Invalid_record_delimiter # callbacks evs2"
  using resync_after_inserted_bytes [of plain_collaborators timestamp_example_header "[]"
      "[0x00, 0xFD, 0xFD]" timestamp_example_header "[]" "[]"]
  by (simp add: plain_collaborators_succeed timestamp_example_well_formed
        PROFILE_DATA_DELIMITER_def)

subsection \<open>A header cut short by the end of the file\<close>

lemma new_header_fields:
  "num_channels new_AzfpProfileHeader = 0" "year new_AzfpProfileHeader = 0"
  "length new_AzfpProfileHeader = 122"
  by (simp_all add: new_AzfpProfileHeader_def num_channels_def year_def c_ushort_def c_ubyte_def)

lemma new_header_body_size: "body_size new_AzfpProfileHeader = 0"
  by (simp add: body_size_def new_header_fields)

lemma new_header_timestamp: "transmission_timestamp new_AzfpProfileHeader = Inl ValueError"
  by (simp add: transmission_timestamp_def datetime_new_def new_header_fields)

lemma readinto_partial:
  "length s \<le> 122 \<Longrightarrow>
     readinto new_AzfpProfileHeader s = (length s, s @ replicate (122 - length s) 0, [])"
  by (simp add: readinto_def new_AzfpProfileHeader_def min_def Let_def)

lemma parse_loop_partial:
  assumes "s \<noteq> []" and "length s \<le> 122"
    and "try_record env (s @ replicate (122 - length s) 0) [] = ((evs, Continue), [])"
  shows "parse_loop env new_AzfpProfileHeader s = (evs, None)"
proof -
  have b: "loop_body env (s @ replicate (122 - length s) 0) []
             = (evs, Continue, new_AzfpProfileHeader, [])"
    using assms(3) by (simp add: loop_body_def find_next_record_Nil)
  show ?thesis
    using assms(1)
    by (subst parse_loop.simps) (simp add: readinto_partial [OF assms(2)] b parse_loop_Nil)
qed

lemma truncated_header_padded:
  "truncated_header_bytes @ replicate (122 - length truncated_header_bytes) 0
     = timestamp_example_header"
  by (simp add: truncated_header_bytes_def timestamp_example_header_def new_AzfpProfileHeader_def
        numeral_eq_Suc)

text \<open>
  C5: the claim is that a delimiter followed by fewer than 122 bytes at the end of the
  stream gives no particle and no diagnostic.  \<^verbatim>\<open>readinto\<close> returns the number of bytes it
  read, and the while loop stops only when that is 0: a shorter header is parsed as a
  record, the bytes that are missing being the zeros of the new header.  One byte after
  the delimiter gives the diagnostic of an invalid timestamp, whatever the collaborators
  do; the first 20 bytes of a header with a valid date give a particle, with collaborators
  that return.
\<close>

theorem truncated_header_evaluated:
  "parse_file plain_collaborators (PROFILE_DATA_DELIMITER @ [0x00])
     = ([Callback Transition_timestamp_invalid], None)
   \<and> (\<exists>p. parse_file plain_collaborators (PROFILE_DATA_DELIMITER @ truncated_header_bytes)
              = ([Particle p], None)
          \<and> port_timestamp p = 3617268900)"
proof -
  have "[0x00] @ replicate (122 - length [0x00 :: byte]) 0 = new_AzfpProfileHeader"
    by (simp add: new_AzfpProfileHeader_def numeral_eq_Suc)
  moreover have "try_record plain_collaborators new_AzfpProfileHeader []
          = (([Callback Transition_timestamp_invalid], Continue), [])"
    using try_record_bad_date [of new_AzfpProfileHeader "[]" plain_collaborators]
    by (simp add: new_header_fields new_header_body_size new_header_timestamp)
  ultimately have "parse_loop plain_collaborators new_AzfpProfileHeader [0x00]
          = ([Callback Transition_timestamp_invalid], None)"
    using parse_loop_partial [of "[0x00]" plain_collaborators] by simp
  then have a: "parse_file plain_collaborators (PROFILE_DATA_DELIMITER @ [0x00])
     = ([Callback Transition_timestamp_invalid], None)"
    by (simp add: parse_file_def find_next_record_delimiter)
  have w: "num_channels timestamp_example_header \<le> 4"
      "body_size timestamp_example_header \<le> length ([] :: byte list)"
    using timestamp_example_well_formed by (simp_all add: well_formed_def)
  from try_record_good [OF plain_collaborators_succeed w timestamp_example_value]
  obtain p where p: "try_record plain_collaborators timestamp_example_header []
                       = (([Particle p], Continue), [])" "port_timestamp p = 3617268900"
    by auto
  have "parse_loop plain_collaborators new_AzfpProfileHeader truncated_header_bytes
          = ([Particle p], None)"
    using parse_loop_partial [of truncated_header_bytes plain_collaborators "[Particle p]"] p(1)
    by (simp add: truncated_header_padded) (simp add: truncated_header_bytes_def)
  then have "parse_file plain_collaborators (PROFILE_DATA_DELIMITER @ truncated_header_bytes)
              = ([Particle p], None)"
    by (simp add: parse_file_def find_next_record_delimiter)
  with a p(2) show ?thesis by blast
qed

subsection \<open>A body cut short\<close>

lemma hundred_bins_fields:
  "num_channels hundred_bins_header = 1" "num_bins hundred_bins_header 0 = 100"
  "is_averaged_data hundred_bins_header 0 = 0" "length hundred_bins_header = 122"
  by (simp_all add: hundred_bins_header_def timestamp_example_header_def
        new_AzfpProfileHeader_def num_channels_def num_bins_def is_averaged_data_def
        c_ushort_def c_ubyte_def)

lemma hundred_bins_body_size: "body_size hundred_bins_header = 200"
  by (simp add: body_size_def chan_size_def hundred_bins_fields)

lemma parse_file_short_body:
  assumes "length ph = 122" and "num_channels ph \<le> 4" and "length tail < body_size ph"
  shows "parse_file env (frame ph tail) = ([Callback Unpacking_the_data], None)"
  using parse_file_Continue [OF assms(1) try_record_short [OF assms(2,3), of env]]
  by (simp add: frame_def parse_file_Nil)

text \<open>
  C6, as stated: when the body of record i is corrupted so that unpacking fails, record i
  is dropped with one diagnostic and the records after it are emitted.  \<^verbatim>\<open>unpack\<close> fails
  only when \<^verbatim>\<open>read\<close> returned fewer bytes than the structure has, that is when the file
  ended; the read has then taken every byte that was left, the later records among them.
  Here record i declares a body of 200 bytes and has 3; the valid record after it is read
  as part of that body and never emitted.
\<close>

theorem truncated_body_counterexample:
  "well_formed timestamp_example_header [] \<and> valid_calendar timestamp_example_header
   \<and> body_size hundred_bins_header = 200
   \<and> parse_file plain_collaborators
        (frame hundred_bins_header ([1, 2, 3] @ frame timestamp_example_header []))
       = ([Callback Unpacking_the_data], None)"
proof -
  have "length timestamp_example_header = 122"
    using timestamp_example_well_formed by (simp add: well_formed_def)
  then have "length ([1, 2, 3] @ frame timestamp_example_header []) < body_size hundred_bins_header"
    by (simp add: hundred_bins_body_size frame_def PROFILE_DATA_DELIMITER_def)
  then have "parse_file plain_collaborators
        (frame hundred_bins_header ([1, 2, 3] @ frame timestamp_example_header []))
       = ([Callback Unpacking_the_data], None)"
    by (intro parse_file_short_body) (simp_all add: hundred_bins_fields)
  then show ?thesis
    using timestamp_example_well_formed timestamp_example_valid hundred_bins_body_size
    by simp
qed

text \<open>
  C6, amended: in a stream of well-formed records with valid dates, followed by a record
  whose delimiter and header are intact and after whose header the file holds fewer bytes
  than its body takes, that record is dropped with exactly one diagnostic, the unpacking
  failure, every record before it is emitted with its header fields, and the parse loop
  ends normally at the end of the stream.  Whatever followed the header was read as the
  body: no later record is emitted.
\<close>

theorem truncated_body_is_dropped:
  assumes "collaborators_succeed env"
    and "\<forall>(ph, body)\<in>set rs. well_formed ph body \<and> valid_calendar ph"
    and "length ph = 122" and "num_channels ph \<le> 4" and "length tail < body_size ph"
  shows "\<exists>ps. parse_file env (records rs @ frame ph tail)
                 = (map Particle ps @ [Callback Unpacking_the_data], None)
           \<and> length ps = length rs
           \<and> list_all2 (\<lambda>(ph, body) p. header_scalars ph (raw_data p)) rs ps"
proof -
  from parse_file_records [OF assms(1,2), of "frame ph tail"] obtain ps where
      ps: "parse_file env (records rs @ frame ph tail)
             = (map Particle ps @ fst (parse_file env (frame ph tail)),
                snd (parse_file env (frame ph tail)))"
      "list_all2 (\<lambda>(ph, body) p. header_scalars ph (raw_data p)
                 \<and> port_timestamp p = seconds_since_1900 ph) rs ps"
    by blast
  from ps(2) have "length ps = length rs"
    by (simp add: list_all2_lengthD)
  moreover from ps(2) have "list_all2 (\<lambda>(ph, body) p. header_scalars ph (raw_data p)) rs ps"
    by (rule list_all2_mono) auto
  moreover have "parse_file env (records rs @ frame ph tail)
                 = (map Particle ps @ [Callback Unpacking_the_data], None)"
    using ps(1) parse_file_short_body [OF assms(3-5), of env] by simp
  ultimately show ?thesis by blast
qed

theorem truncated_body_is_dropped_witness:
  "\<exists>ps. parse_file plain_collaborators
           (records [(timestamp_example_header, [])]
              @ frame hundred_bins_header ([1, 2, 3] @ frame timestamp_example_header []))
         = (map Particle ps @ [Callback Unpacking_the_data], None)
       \<and> length ps = 1
       \<and> list_all2 (\<lambda>(ph, body) p. header_scalars ph (raw_data p))
            [(timestamp_example_header, [] :: byte list)] ps"
proof -
  have "length timestamp_example_header = 122"
    using timestamp_example_well_formed by (simp add: well_formed_def)
  then have "length ([1, 2, 3] @ frame timestamp_example_header []) < body_size hundred_bins_header"
    by (simp add: hundred_bins_body_size frame_def PROFILE_DATA_DELIMITER_def)
  with truncated_body_is_dropped [of plain_collaborators "[(timestamp_example_header, [])]"
      hundred_bins_header "[1, 2, 3] @ frame timestamp_example_header []"]
  show ?thesis
    by (simp add: plain_collaborators_succeed timestamp_example_well_formed
          timestamp_example_valid hundred_bins_fields)
qed

subsection \<open>More than four channels\<close>

lemma five_channels_fields:
  "num_channels five_channels_header = 5" "length five_channels_header = 122"
  "chan_size five_channels_header 0 = 0" "chan_size five_channels_header (Suc 0) = 0"
  "chan_size five_channels_header 2 = 0" "chan_size five_channels_header 3 = 0"
  by (simp_all add: five_channels_header_def timestamp_example_header_def
        new_AzfpProfileHeader_def num_channels_def chan_size_def num_bins_def
        is_averaged_data_def c_ushort_def c_ubyte_def)

lemma upt_0_4: "[0..<4] = [0, 1, 2, 3]"
  by (simp add: upt_conv_Cons)

text \<open>
  C8: when a header declares more than four channels and the file holds the data of the
  first four, the loop over the channels indexes \<open>num_bins\<close> at 4, which raises
  IndexError; no except clause of \<^verbatim>\<open>parse_file\<close> catches it, and it leaves \<^verbatim>\<open>parse_file\<close>
  with nothing emitted for that record and the rest of the file unread.
\<close>

theorem too_many_channels_aborts:
  assumes "length ph = 122" and "4 < num_channels ph"
    and "sum_list (map (chan_size ph) [0..<4]) \<le> length s"
  shows "fst (parse_record env ph s) = Inl IndexError
         \<and> parse_file env (frame ph s) = ([], Some IndexError)"
proof -
  have "fst (parse_record env ph s) = Inl IndexError"
    using parse_record_too_many_channels [OF assms(2,3), of env] by simp
  moreover have "parse_file env (PROFILE_DATA_DELIMITER @ ph @ s) = ([], Some IndexError)"
    using assms(1) try_record_too_many_channels [OF assms(2,3), of env]
    by (rule parse_file_Raise)
  ultimately show ?thesis by (simp add: frame_def)
qed

theorem too_many_channels_aborts_witness:
  "fst (parse_record plain_collaborators five_channels_header
          (frame timestamp_example_header [])) = Inl IndexError
   \<and> parse_file plain_collaborators
        (frame five_channels_header (frame timestamp_example_header []))
       = ([], Some IndexError)"
  using too_many_channels_aborts [of five_channels_header "frame timestamp_example_header []"
      plain_collaborators]
  by (simp add: five_channels_fields upt_0_4)

subsection \<open>What a parsed record holds\<close>

lemma parse_record_Inr:
  assumes "parse_record env ph s = (Inr x, s')"
  shows "\<exists>cv. parse_channels ph [0..<num_channels ph]
                 [Counts [], Counts [], Counts [], Counts []] s = (Inr cv, s')
              \<and> assemble env ph cv = Inr x"
  using assms by (auto simp: parse_record_def split: prod.splits sum.splits)

lemma assemble_Inr:
  assumes "assemble env ph cv = Inr (d, ts, cv', dr)"
  shows "transmission_timestamp ph = Inr ts
         \<and> (\<exists>ss sa. compute_echogram_metadata env ph = Inr (ss, dr, sa)
                \<and> compute_backscatter env ph cv ss dr sa = Inr cv')
         \<and> zplsc_particle_data ph ts cv' dr = Inr d"
  using assms by (auto simp: assemble_def split: sum.splits prod.splits)

lemma zplsc_particle_data_timestamp:
  "zplsc_particle_data ph ts cv dr = Inr d \<Longrightarrow> d TRANS_TIMESTAMP = Some (PFloat ts)"
  by (auto simp: zplsc_particle_data_def split: if_splits)

text \<open>
  C7: for a header with valid calendar components, the timestamp the parser computes, which
  is the timestamp of the particle and the value of its transmission timestamp field, is
  the number of seconds from 1900-01-01T00:00:00 to the instant of the header's year,
  month, day, hour, minute, second and hundredths, counted through the calendar; the
  hundredths, taken times 10000 as microseconds, count as hundredths of a second.  The
  witness is the header dated 2014-08-17 12:55:00.00, at 3617268900 seconds.  (The float
  of the source is the double nearest to this number.)
\<close>

theorem timestamp_is_seconds_since_1900:
  assumes "valid_calendar ph"
  shows "transmission_timestamp ph = Inr (seconds_since_1900 ph)
         \<and> (\<forall>d timestamp cv dr s'.
               parse_record env ph s = (Inr (d, timestamp, cv, dr), s') \<longrightarrow>
               timestamp = seconds_since_1900 ph
               \<and> d TRANS_TIMESTAMP = Some (PFloat (seconds_since_1900 ph)))"
proof -
  have t: "transmission_timestamp ph = Inr (seconds_since_1900 ph)"
    using assms by (rule transmission_timestamp_valid)
  have "timestamp = seconds_since_1900 ph
          \<and> d TRANS_TIMESTAMP = Some (PFloat (seconds_since_1900 ph))"
    if "parse_record env ph s = (Inr (d, timestamp, cv, dr), s')" for d timestamp cv dr s'
  proof -
    from parse_record_Inr [OF that] obtain cv0 where
        "assemble env ph cv0 = Inr (d, timestamp, cv, dr)" by blast
    from assemble_Inr [OF this] have "transmission_timestamp ph = Inr timestamp"
        "zplsc_particle_data ph timestamp cv dr = Inr d" by simp_all
    with t zplsc_particle_data_timestamp [of ph timestamp cv dr d] show ?thesis by simp
  qed
  with t show ?thesis by blast
qed

lemma timestamp_example_record:
  "\<exists>d cv dr. parse_record plain_collaborators timestamp_example_header []
                = (Inr (d, 3617268900, cv, dr), [])"
proof -
  have w: "num_channels timestamp_example_header \<le> 4"
      "body_size timestamp_example_header \<le> length ([] :: byte list)"
    using timestamp_example_well_formed by (simp_all add: well_formed_def)
  from parse_record_enough [OF w, of plain_collaborators] obtain cv0 where
      cv0: "parse_record plain_collaborators timestamp_example_header []
              = (assemble plain_collaborators timestamp_example_header cv0, [])"
      "length cv0 = 4"
    by auto
  from assemble_succeeds [OF plain_collaborators_succeed timestamp_example_value cv0(2)]
  show ?thesis using cv0(1) by auto
qed

theorem timestamp_is_seconds_since_1900_witness:
  "valid_calendar timestamp_example_header
   \<and> transmission_timestamp timestamp_example_header = Inr 3617268900
   \<and> seconds_since_1900 timestamp_example_header = 3617268900
   \<and> (\<exists>d cv dr. parse_record plain_collaborators timestamp_example_header []
                    = (Inr (d, 3617268900, cv, dr), [])
          \<and> d TRANS_TIMESTAMP = Some (PFloat 3617268900))"
proof -
  note inst = timestamp_is_seconds_since_1900 [OF timestamp_example_valid,
      of plain_collaborators "[]"]
  from inst timestamp_example_value
  have s: "seconds_since_1900 timestamp_example_header = 3617268900" by simp
  from timestamp_example_record obtain d cv dr where
      r: "parse_record plain_collaborators timestamp_example_header []
            = (Inr (d, 3617268900, cv, dr), [])"
    by blast
  with inst s have "d TRANS_TIMESTAMP = Some (PFloat 3617268900)" by simp
  with r s timestamp_example_valid timestamp_example_value show ?thesis by blast
qed

lemma zplsc_particle_data_channels:
  assumes "zplsc_particle_data ph ts cv dr = Inr d"
  shows "channel_keys \<subseteq> dom d" and "4 \<le> length cv"
    and "c < 4 \<Longrightarrow> d (VALS_CHAN c) = Some (PFloatList (cv ! c))"
proof -
  from assms have le: "4 \<le> length cv" and d: "d = map_of
        [(TRANS_TIMESTAMP, PFloat ts),
         (SERIAL_NUMBER, PStr (str_nat (serial_num ph))),
         (PHASE, PInt (phase ph)),
         (BURST_NUMBER, PInt (burst_num ph)),
         (TILT_X, PInt (tilt_x ph)),
         (TILT_Y, PInt (tilt_y ph)),
         (BATTERY_VOLTAGE, PInt (battery_voltage ph)),
         (PRESSURE, PInt (pressure ph)),
         (TEMPERATURE, PInt (temperature ph)),
         (IS_AVERAGED_DATA, PIntList (map (is_averaged_data ph) [0..<4])),
         (FREQ_CHAN_1, PFloat (real (frequency ph 0))),
         (VALS_CHAN_1, PFloatList (cv ! 0)),
         (DEPTH_CHAN_1, PFloatList (dr ! 0)),
         (FREQ_CHAN_2, PFloat (real (frequency ph 1))),
         (VALS_CHAN_2, PFloatList (cv ! 1)),
         (DEPTH_CHAN_2, PFloatList (dr ! 1)),
         (FREQ_CHAN_3, PFloat (real (frequency ph 2))),
         (VALS_CHAN_3, PFloatList (cv ! 2)),
         (DEPTH_CHAN_3, PFloatList (dr ! 2)),
         (FREQ_CHAN_4, PFloat (real (frequency ph 3))),
         (VALS_CHAN_4, PFloatList (cv ! 3)),
         (DEPTH_CHAN_4, PFloatList (dr ! 3))]"
    by (auto simp: zplsc_particle_data_def split: if_splits)
  show "channel_keys \<subseteq> dom d"
    unfolding d channel_keys_def by (simp add: dom_map_of_conv_image_fst)
  show "4 \<le> length cv" by (rule le)
  show "d (VALS_CHAN c) = Some (PFloatList (cv ! c))" if "c < 4"
  proof -
    from that have "c = 0 \<or> c = 1 \<or> c = 2 \<or> c = 3" by arith
    then show ?thesis unfolding d VALS_CHAN_def by (elim disjE) simp_all
  qed
qed

text \<open>
  C9: the dictionary of every record that \<open>parse_record\<close> returns holds the frequency,
  values and depth range fields of all four channels, whatever \<open>num_channels\<close> is, and
  for every channel index from \<open>num_channels\<close> up to 3 the values are the empty list,
  when the backscatter helper keeps the shape of the channel values.
\<close>

theorem particle_has_all_four_channels:
  assumes "backscatter_keeps_shape env"
    and "parse_record env ph s = (Inr (d, timestamp, cv, dr), s')"
  shows "channel_keys \<subseteq> dom d
         \<and> (\<forall>c. num_channels ph \<le> c \<and> c < 4 \<longrightarrow> d (VALS_CHAN c) = Some (PFloatList []))"
proof -
  from parse_record_Inr [OF assms(2)] obtain cv0 where
      a: "assemble env ph cv0 = Inr (d, timestamp, cv, dr)" by blast
  from assemble_Inr [OF a] have z: "zplsc_particle_data ph timestamp cv dr = Inr d"
    by blast
  have "d (VALS_CHAN c) = Some (PFloatList [])" if c: "num_channels ph \<le> c" "c < 4" for c
  proof -
    from c have n: "num_channels ph \<le> 4" by simp
    have "\<not> length s < body_size ph"
      using parse_record_short [OF n, of s env] assms(2) by auto
    then have "body_size ph \<le> length s" by simp
    from parse_record_enough [OF n this, of env] obtain cv1 where
        cv1: "parse_record env ph s = (assemble env ph cv1, drop (body_size ph) s)"
        "length cv1 = 4" "\<forall>c. num_channels ph \<le> c \<longrightarrow> c < 4 \<longrightarrow> cv1 ! c = Counts []"
      by blast
    from cv1(1) assms(2) have "assemble env ph cv1 = Inr (d, timestamp, cv, dr)" by simp
    from assemble_Inr [OF this] obtain ss1 sa1 where
        "compute_backscatter env ph cv1 ss1 dr sa1 = Inr cv" by blast
    with assms(1) have sh: "map length cv = map chan_len cv1"
      unfolding backscatter_keeps_shape_def by blast
    then have "length cv = length cv1" by (metis length_map)
    with sh cv1(2) c(2) have "length (cv ! c) = chan_len (cv1 ! c)"
      by (metis nth_map)
    with cv1(3) c have "cv ! c = []" by (simp add: chan_len_def)
    with zplsc_particle_data_channels(3) [OF z c(2)] show ?thesis by simp
  qed
  with zplsc_particle_data_channels(1) [OF z] show ?thesis by blast
qed

lemma plain_collaborators_keep_shape: "backscatter_keeps_shape plain_collaborators"
  by (simp add: backscatter_keeps_shape_def plain_collaborators_def values_of_def chan_len_def
        comp_def split: chan_data.splits)

lemma parse_record_succeeds:
  assumes "collaborators_succeed env" and "num_channels ph \<le> 4"
    and "body_size ph \<le> length s" and "transmission_timestamp ph = Inr ts"
  shows "\<exists>d cv dr. parse_record env ph s = (Inr (d, ts, cv, dr), drop (body_size ph) s)"
proof -
  from parse_record_enough [OF assms(2,3), of env] obtain cv0 where
      cv0: "parse_record env ph s = (assemble env ph cv0, drop (body_size ph) s)"
      "length cv0 = 4"
    by auto
  from assemble_succeeds [OF assms(1,4) cv0(2)] show ?thesis using cv0(1) by auto
qed

lemma one_bin_fields:
  "year one_bin_header = 2014" "month one_bin_header = 8"
  "day one_bin_header = 17" "hour one_bin_header = 12"
  "minute one_bin_header = 55" "second one_bin_header = 0"
  "hundredths one_bin_header = 0" "num_channels one_bin_header = 1"
  "num_bins one_bin_header 0 = 1" "is_averaged_data one_bin_header 0 = 0"
  by (simp_all add: one_bin_header_def timestamp_example_header_def new_AzfpProfileHeader_def
        year_def month_def day_def hour_def minute_def second_def hundredths_def
        num_channels_def num_bins_def is_averaged_data_def c_ushort_def c_ubyte_def)

lemma one_bin_timestamp: "transmission_timestamp one_bin_header = Inr 3617268900"
  by (simp add: transmission_timestamp_def one_bin_fields datetime_new_def
        days_in_month_def DAYS_IN_MONTH_def total_seconds_def datetime_sub_def toordinal_def
        ymd2ord_def days_before_year_def days_before_month_def DAYS_BEFORE_MONTH_def is_leap_def
        datetime_1900_1_1_def)

lemma one_bin_body_size: "body_size one_bin_header = 2"
  by (simp add: body_size_def chan_size_def one_bin_fields)

theorem particle_has_all_four_channels_witness:
  "\<exists>d cv dr. parse_record plain_collaborators one_bin_header [0, 5]
                 = (Inr (d, 3617268900, cv, dr), [])
      \<and> num_channels one_bin_header = 1
      \<and> channel_keys \<subseteq> dom d
      \<and> d VALS_CHAN_2 = Some (PFloatList [])
      \<and> d VALS_CHAN_3 = Some (PFloatList []) \<and> d VALS_CHAN_4 = Some (PFloatList [])"
proof -
  from parse_record_succeeds [OF plain_collaborators_succeed _ _ one_bin_timestamp, of "[0, 5]"]
  obtain d cv dr where
      r: "parse_record plain_collaborators one_bin_header [0, 5]
            = (Inr (d, 3617268900, cv, dr), [])"
    by (auto simp: one_bin_fields one_bin_body_size)
  from particle_has_all_four_channels [OF plain_collaborators_keep_shape r]
  have k: "channel_keys \<subseteq> dom d"
    and v: "\<And>c. 1 \<le> c \<and> c < 4 \<Longrightarrow> d (VALS_CHAN c) = Some (PFloatList [])"
    by (simp_all add: one_bin_fields)
  from v [of 1] v [of 2] v [of 3]
  have "d VALS_CHAN_2 = Some (PFloatList [])"
      "d VALS_CHAN_3 = Some (PFloatList [])" "d VALS_CHAN_4 = Some (PFloatList [])"
    by (simp_all add: VALS_CHAN_def)
  with r k one_bin_fields(8) show ?thesis by blast
qed

subsection \<open>The header at the test of the while loop\<close>

lemma loop_test_parse_file:
  "loop_test env input evs ph s \<Longrightarrow>
     parse_file env input = (evs @ fst (parse_loop env ph s), snd (parse_loop env ph s))"
proof (induction rule: loop_test.induct)
  case (enter evs s)
  then show ?case by (simp add: parse_file_def split: prod.splits)
next
  case (again evs ph s n ph1 s1 evs' ph2 s2)
  have "parse_loop env ph s = (evs' @ fst (parse_loop env ph2 s2), snd (parse_loop env ph2 s2))"
    using again.hyps(2-4) by (subst parse_loop.simps) (simp split: prod.splits)
  with again.IH show ?case by simp
qed




end
